theory Spec2Isabelle
  imports Main "HOL-Library.Word" "HOL-Library.Char_ord" "HOL-Library.List_Lexorder"
begin

section \<open>Go values\<close>

text \<open>
  Go's \<^verbatim>\<open>int\<close> on the 64-bit platforms the program targets is a signed 64-bit
  integer, read with \<^term>\<open>sint\<close>. Go's \<^verbatim>\<open>string\<close> is a sequence of bytes, as
  \<^typ>\<open>string\<close> is; \<open>byte\<close> reads a byte as a number.
\<close>

type_synonym go_int = "64 word"

abbreviation DQ :: char where "DQ \<equiv> CHR 0x22"
abbreviation SQ :: char where "SQ \<equiv> CHR 0x27"
abbreviation BSL :: char where "BSL \<equiv> CHR 0x5C"
abbreviation NL :: char where "NL \<equiv> CHR 0x0A"

definition byte :: "char \<Rightarrow> nat" where
  "byte c = of_char c"

definition chr :: "nat \<Rightarrow> char" where
  "chr n = char_of n"

text \<open>strings.HasPrefix.\<close>

definition has_prefix :: "string \<Rightarrow> string \<Rightarrow> bool" where
  "has_prefix s p = (take (length p) s = p)"

text \<open>strings.Join.\<close>

fun Join :: "string list \<Rightarrow> string \<Rightarrow> string" where
  "Join [] sep = []"
| "Join [x] sep = x"
| "Join (x # y # ys) sep = x @ sep @ Join (y # ys) sep"

section \<open>The standard library, as far as the program uses it\<close>

subsection \<open>strconv and the decimal verb of fmt\<close>

definition digit_char :: "nat \<Rightarrow> char" where
  "digit_char d = ''0123456789'' ! d"

fun FormatUint :: "nat \<Rightarrow> string" where
  "FormatUint n =
     (if n < 10 then [digit_char n] else FormatUint (n div 10) @ [digit_char (n mod 10)])"

declare FormatUint.simps [simp del]

definition FormatInt :: "int \<Rightarrow> string" where
  "FormatInt i = (if i < 0 then CHR ''-'' # FormatUint (nat (- i)) else FormatUint (nat i))"

definition is_digit :: "char \<Rightarrow> bool" where
  "is_digit c = (48 \<le> byte c \<and> byte c \<le> 57)"

fun digits_value :: "nat \<Rightarrow> string \<Rightarrow> nat" where
  "digits_value acc [] = acc"
| "digits_value acc (c # cs) = digits_value (acc * 10 + (byte c - 48)) cs"

text \<open>
  strconv.ParseInt(s, 10, 64): an optional sign, then decimal digits only; the value must
  fit a signed 64-bit integer.
\<close>

definition ParseInt :: "string \<Rightarrow> go_int option" where
  "ParseInt s =
     (let neg = (s \<noteq> [] \<and> hd s = CHR ''-'');
          ds = (if s \<noteq> [] \<and> (hd s = CHR ''-'' \<or> hd s = CHR ''+'') then tl s else s);
          v = (if neg then - int (digits_value 0 ds) else int (digits_value 0 ds))
      in if ds = [] \<or> \<not> list_all is_digit ds then None
         else if v < - 9223372036854775808 \<or> 9223372036854775807 < v then None
         else Some (word_of_int v))"

subsection \<open>unicode/utf8\<close>

definition cont :: "char \<Rightarrow> bool" where
  "cont c = (0x80 \<le> byte c \<and> byte c \<le> 0xBF)"

text \<open>
  The first-byte table and the accept ranges of unicode/utf8: the length a leading byte
  announces (0 for a byte that cannot lead), and the range of the second byte.
\<close>

definition lead_size :: "char \<Rightarrow> nat" where
  "lead_size c =
     (let b = byte c in
      if b < 0x80 then 1 else if b < 0xC2 then 0 else if b < 0xE0 then 2
      else if b < 0xF0 then 3 else if b < 0xF5 then 4 else 0)"

definition accepts :: "char \<Rightarrow> char \<Rightarrow> bool" where
  "accepts c d =
     ((if byte c = 0xE0 then 0xA0 else if byte c = 0xF0 then 0x90 else 0x80) \<le> byte d \<and>
      byte d \<le> (if byte c = 0xED then 0x9F else if byte c = 0xF4 then 0x8F else 0xBF))"

text \<open>
  The number of bytes of the well-formed UTF-8 sequence at the head of a string, and 0
  where utf8.DecodeRune answers (RuneError, 1).
\<close>

definition utf8_len :: "string \<Rightarrow> nat" where
  "utf8_len s =
     (case s of
        [] \<Rightarrow> 0
      | c # cs \<Rightarrow>
          if lead_size c \<le> 1 then lead_size c
          else if length cs < lead_size c - 1 then 0
          else if accepts c (hd cs) \<and> list_all cont (take (lead_size c - 2) (tl cs))
          then lead_size c else 0)"

text \<open>utf8.ValidString.\<close>

function ValidString :: "string \<Rightarrow> bool" where
  "ValidString [] = True"
| "ValidString (c # cs) =
     (if utf8_len (c # cs) = 0 then False
      else ValidString (drop (utf8_len (c # cs)) (c # cs)))"
  by pat_completeness auto
termination
  by (relation "measure length") auto

declare ValidString.simps(2) [simp del]

text \<open>The encoding of U+FFFD, and utf8.EncodeRune.\<close>

definition replacement :: string where
  "replacement = [CHR 0xEF, CHR 0xBF, CHR 0xBD]"

definition EncodeRune :: "nat \<Rightarrow> string" where
  "EncodeRune r =
     (if r < 0x80 then [chr r]
      else if r < 0x800 then [chr (0xC0 + r div 64), chr (0x80 + r mod 64)]
      else if (0xD800 \<le> r \<and> r < 0xE000) \<or> 0x10FFFF < r then replacement
      else if r < 0x10000 then
        [chr (0xE0 + r div 4096), chr (0x80 + r div 64 mod 64), chr (0x80 + r mod 64)]
      else [chr (0xF0 + r div 262144), chr (0x80 + r div 4096 mod 64),
            chr (0x80 + r div 64 mod 64), chr (0x80 + r mod 64)])"

subsection \<open>encoding/json: string literals\<close>

definition hex_char :: "nat \<Rightarrow> char" where
  "hex_char d = ''0123456789abcdef'' ! d"

definition hex_value :: "char \<Rightarrow> nat option" where
  "hex_value c =
     (let b = byte c in
      if 48 \<le> b \<and> b \<le> 57 then Some (b - 48)
      else if 97 \<le> b \<and> b \<le> 102 then Some (b - 87)
      else if 65 \<le> b \<and> b \<le> 70 then Some (b - 55)
      else None)"

text \<open>Four hexadecimal digits at the head of a string (the digits of a \<^verbatim>\<open>u\<close> escape).\<close>

definition hex4 :: "string \<Rightarrow> nat option" where
  "hex4 s =
     (case s of
        a # b # c # d # _ \<Rightarrow>
          (case (hex_value a, hex_value b, hex_value c, hex_value d) of
             (Some x, Some y, Some z, Some u) \<Rightarrow> Some (((x * 16 + y) * 16 + z) * 16 + u)
           | _ \<Rightarrow> None)
      | _ \<Rightarrow> None)"

text \<open>getu4: a whole \<^verbatim>\<open>u\<close> escape, backslash included, at the head of a string.\<close>

definition getu4 :: "string \<Rightarrow> nat option" where
  "getu4 s =
     (case s of
        c # d # ds \<Rightarrow> if c = BSL \<and> d = CHR ''u'' then hex4 ds else None
      | _ \<Rightarrow> None)"

text \<open>The one-letter escapes the scanner accepts, and the byte each stands for.\<close>

definition simple_escape :: "char \<Rightarrow> char option" where
  "simple_escape e =
     (if e = DQ \<or> e = BSL \<or> e = CHR ''/'' then Some e
      else if e = CHR ''b'' then Some (CHR 0x08)
      else if e = CHR ''f'' then Some (CHR 0x0C)
      else if e = CHR ''n'' then Some (CHR 0x0A)
      else if e = CHR ''r'' then Some (CHR 0x0D)
      else if e = CHR ''t'' then Some (CHR 0x09)
      else None)"

definition emit :: "string \<Rightarrow> (string \<times> string) option \<Rightarrow> (string \<times> string) option" where
  "emit p r = (case r of None \<Rightarrow> None | Some (s, rest) \<Rightarrow> Some (p @ s, rest))"

text \<open>
  A string literal after its opening quote, as the scanner and \<^verbatim>\<open>unquote\<close> read it
  together: the decoded bytes and the input after the closing quote, or \<open>None\<close> for a
  syntax error. An escaped surrogate pair is one rune; a lone surrogate and every byte
  that is not well-formed UTF-8 become U+FFFD. utf8.DecodeRune followed by
  utf8.EncodeRune gives a well-formed sequence back as it is, so such a sequence is copied.
\<close>

function unquote :: "string \<Rightarrow> (string \<times> string) option" where
  "unquote [] = None"
| "unquote (c # cs) =
     (if c = DQ then Some ([], cs)
      else if c = BSL then
        (case cs of
           [] \<Rightarrow> None
         | e # es \<Rightarrow>
             if e = CHR ''u'' then
               (case hex4 es of
                  None \<Rightarrow> None
                | Some rr \<Rightarrow>
                    if 0xD800 \<le> rr \<and> rr < 0xE000 then
                      (case getu4 (drop 4 es) of
                         Some rr1 \<Rightarrow>
                           if rr < 0xDC00 \<and> 0xDC00 \<le> rr1 \<and> rr1 < 0xE000
                           then emit (EncodeRune ((rr - 0xD800) * 1024 + (rr1 - 0xDC00) + 0x10000))
                                  (unquote (drop 10 es))
                           else emit replacement (unquote (drop 4 es))
                       | None \<Rightarrow> emit replacement (unquote (drop 4 es)))
                    else emit (EncodeRune rr) (unquote (drop 4 es)))
             else (case simple_escape e of
                     None \<Rightarrow> None
                   | Some x \<Rightarrow> emit [x] (unquote es)))
      else if byte c < 0x20 then None
      else if byte c < 0x80 then emit [c] (unquote cs)
      else if utf8_len (c # cs) = 0 then emit replacement (unquote cs)
      else emit (take (utf8_len (c # cs)) (c # cs)) (unquote (drop (utf8_len (c # cs)) (c # cs))))"
  by pat_completeness auto
termination
  by (relation "measure length") auto

declare unquote.simps [simp del]

text \<open>
  The encoder's string literal (\<^verbatim>\<open>appendString\<close> with HTML escaping, the default of
  \<^verbatim>\<open>json.Encoder\<close> and \<^verbatim>\<open>json.Marshal\<close>): the two-character escapes; the escape
  \<^verbatim>\<open>u00XX\<close> for the other control bytes and for \<^verbatim>\<open><\<close>, \<^verbatim>\<open>>\<close>, \<^verbatim>\<open>&\<close>; the
  escape \<^verbatim>\<open>ufffd\<close> for every byte that is not well-formed UTF-8; the escapes
  \<^verbatim>\<open>u2028\<close> and \<^verbatim>\<open>u2029\<close> for the two separators. (Releases before Go 1.22 write
  the escapes \<^verbatim>\<open>u0008\<close> and \<^verbatim>\<open>u000c\<close> where this writes \<^verbatim>\<open>b\<close> and \<^verbatim>\<open>f\<close>;
  the decoder reads both alike.)
\<close>

definition short_escape :: "char \<Rightarrow> char option" where
  "short_escape c =
     (if c = DQ \<or> c = BSL then Some c
      else if c = CHR 0x08 then Some (CHR ''b'')
      else if c = CHR 0x0C then Some (CHR ''f'')
      else if c = CHR 0x0A then Some (CHR ''n'')
      else if c = CHR 0x0D then Some (CHR ''r'')
      else if c = CHR 0x09 then Some (CHR ''t'')
      else None)"

definition html_unsafe :: "char \<Rightarrow> bool" where
  "html_unsafe c = (c = CHR ''<'' \<or> c = CHR ''>'' \<or> c = CHR ''&'')"

definition escape_ascii :: "char \<Rightarrow> string" where
  "escape_ascii c =
     (case short_escape c of
        Some e \<Rightarrow> [BSL, e]
      | None \<Rightarrow>
          if byte c < 0x20 \<or> html_unsafe c
          then [BSL, CHR ''u'', CHR ''0'', CHR ''0'', hex_char (byte c div 16), hex_char (byte c mod 16)]
          else [c])"

definition line_sep :: string where
  "line_sep = [CHR 0xE2, CHR 0x80, CHR 0xA8]"

definition para_sep :: string where
  "para_sep = [CHR 0xE2, CHR 0x80, CHR 0xA9]"

function quote_body :: "string \<Rightarrow> string" where
  "quote_body [] = []"
| "quote_body (c # cs) =
     (if byte c < 0x80 then escape_ascii c @ quote_body cs
      else if utf8_len (c # cs) = 0 then BSL # ''ufffd'' @ quote_body cs
      else if take 3 (c # cs) = line_sep then BSL # ''u2028'' @ quote_body (drop 3 (c # cs))
      else if take 3 (c # cs) = para_sep then BSL # ''u2029'' @ quote_body (drop 3 (c # cs))
      else take (utf8_len (c # cs)) (c # cs) @ quote_body (drop (utf8_len (c # cs)) (c # cs)))"
  by pat_completeness auto
termination
  by (relation "measure length") auto

declare quote_body.simps [simp del]

definition quote :: "string \<Rightarrow> string" where
  "quote s = DQ # quote_body s @ [DQ]"

subsection \<open>encoding/json: values\<close>

text \<open>A JSON text as a tree. A number keeps its literal, as \<^verbatim>\<open>json.Number\<close> does.\<close>

datatype json =
    JNull
  | JBool bool
  | JNumber string
  | JString string
  | JArray "json list"
  | JObject "(string \<times> json) list"

definition is_space :: "char \<Rightarrow> bool" where
  "is_space c = (c = CHR '' '' \<or> c = CHR 0x09 \<or> c = CHR 0x0D \<or> c = CHR 0x0A)"

definition skip_ws :: "string \<Rightarrow> string" where
  "skip_ws s = dropWhile is_space s"

text \<open>
  A number literal at the head of a string, by the scanner's states: the literal and the
  input after it.
\<close>

definition scan_digits :: "string \<Rightarrow> (string \<times> string) option" where
  "scan_digits s =
     (if takeWhile is_digit s = [] then None
      else Some (takeWhile is_digit s, dropWhile is_digit s))"

definition scan_int_part :: "string \<Rightarrow> (string \<times> string) option" where
  "scan_int_part s =
     (case s of
        [] \<Rightarrow> None
      | c # cs \<Rightarrow> if c = CHR ''0'' then Some ([c], cs) else scan_digits s)"

definition scan_frac :: "string \<Rightarrow> (string \<times> string) option" where
  "scan_frac s =
     (case s of
        [] \<Rightarrow> Some ([], s)
      | c # cs \<Rightarrow> if c = CHR ''.'' then emit [c] (scan_digits cs) else Some ([], s))"

definition scan_exp :: "string \<Rightarrow> (string \<times> string) option" where
  "scan_exp s =
     (case s of
        [] \<Rightarrow> Some ([], s)
      | c # cs \<Rightarrow>
          if c = CHR ''e'' \<or> c = CHR ''E'' then
            (case cs of
               [] \<Rightarrow> None
             | d # ds \<Rightarrow>
                 if d = CHR ''+'' \<or> d = CHR ''-'' then emit [c, d] (scan_digits ds)
                 else emit [c] (scan_digits cs))
          else Some ([], s))"

definition scan_number :: "string \<Rightarrow> (string \<times> string) option" where
  "scan_number s =
     (case (if s \<noteq> [] \<and> hd s = CHR ''-'' then emit ''-'' (scan_int_part (tl s))
            else scan_int_part s) of
        None \<Rightarrow> None
      | Some (i, r) \<Rightarrow>
          (case scan_frac r of
             None \<Rightarrow> None
           | Some (f, r') \<Rightarrow> emit (i @ f) (scan_exp r')))"

text \<open>
  The value at the head of a text, and the text after it. The first argument bounds the
  number of nested calls; \<open>2 * length s + 1\<close> is enough for every text \<open>s\<close>, since each
  two nested calls consume a byte. (The decoder's limit of 10000 on the nesting depth is
  checked on the value that was read, in \<open>json_Decode\<close>.)
\<close>

fun parse_value :: "nat \<Rightarrow> string \<Rightarrow> (json \<times> string) option"
and parse_elems :: "nat \<Rightarrow> string \<Rightarrow> (json list \<times> string) option"
and parse_members :: "nat \<Rightarrow> string \<Rightarrow> ((string \<times> json) list \<times> string) option" where
  "parse_value 0 s = None"
| "parse_value (Suc n) s =
     (case skip_ws s of
        [] \<Rightarrow> None
      | c # cs \<Rightarrow>
          if c = CHR ''{'' then
            (case skip_ws cs of
               [] \<Rightarrow> None
             | d # ds \<Rightarrow>
                 if d = CHR ''}'' then Some (JObject [], ds)
                 else (case parse_members n (d # ds) of
                         None \<Rightarrow> None
                       | Some (ms, r) \<Rightarrow> Some (JObject ms, r)))
          else if c = CHR ''['' then
            (case skip_ws cs of
               [] \<Rightarrow> None
             | d # ds \<Rightarrow>
                 if d = CHR '']'' then Some (JArray [], ds)
                 else (case parse_elems n (d # ds) of
                         None \<Rightarrow> None
                       | Some (vs, r) \<Rightarrow> Some (JArray vs, r)))
          else if c = DQ then
            (case unquote cs of None \<Rightarrow> None | Some (x, r) \<Rightarrow> Some (JString x, r))
          else if c = CHR ''-'' \<or> is_digit c then
            (case scan_number (c # cs) of None \<Rightarrow> None | Some (l, r) \<Rightarrow> Some (JNumber l, r))
          else if has_prefix (c # cs) ''true'' then Some (JBool True, drop 4 (c # cs))
          else if has_prefix (c # cs) ''false'' then Some (JBool False, drop 5 (c # cs))
          else if has_prefix (c # cs) ''null'' then Some (JNull, drop 4 (c # cs))
          else None)"
| "parse_elems 0 s = None"
| "parse_elems (Suc n) s =
     (case parse_value n s of
        None \<Rightarrow> None
      | Some (v, r) \<Rightarrow>
          (case skip_ws r of
             [] \<Rightarrow> None
           | d # ds \<Rightarrow>
               if d = CHR '','' then
                 (case parse_elems n ds of None \<Rightarrow> None | Some (vs, r') \<Rightarrow> Some (v # vs, r'))
               else if d = CHR '']'' then Some ([v], ds)
               else None))"
| "parse_members 0 s = None"
| "parse_members (Suc n) s =
     (case skip_ws s of
        [] \<Rightarrow> None
      | q # ks \<Rightarrow>
          if q = DQ then
            (case unquote ks of
               None \<Rightarrow> None
             | Some (k, r) \<Rightarrow>
                 (case skip_ws r of
                    [] \<Rightarrow> None
                  | e # es \<Rightarrow>
                      if e = CHR '':'' then
                        (case parse_value n es of
                           None \<Rightarrow> None
                         | Some (v, r') \<Rightarrow>
                             (case skip_ws r' of
                                [] \<Rightarrow> None
                              | d # ds \<Rightarrow>
                                  if d = CHR '','' then
                                    (case parse_members n ds of
                                       None \<Rightarrow> None
                                     | Some (ms, r'') \<Rightarrow> Some ((k, v) # ms, r''))
                                  else if d = CHR ''}'' then Some ([(k, v)], ds)
                                  else None))
                      else None))
          else None)"

subsection \<open>regexp: the patterns of the program\<close>

text \<open>
  Go's regexp matches leftmost-first: at the leftmost position where a match starts, a
  greedy \<^verbatim>\<open>.*\<close> takes as much as it can and gives back until the rest of the pattern
  matches, a lazy \<^verbatim>\<open>.*?\<close> takes as little as it can; \<^verbatim>\<open>.\<close> matches every byte but
  the newline. The patterns of the program are written out by hand on that reading.
\<close>

definition line :: "string \<Rightarrow> string" where
  "line s = takeWhile (\<lambda>c. c \<noteq> NL) s"

text \<open>Where the last occurrence of \<open>pat\<close> in \<open>s\<close> starts.\<close>

fun last_index :: "string \<Rightarrow> string \<Rightarrow> nat option" where
  "last_index pat [] = (if pat = [] then Some 0 else None)"
| "last_index pat (c # cs) =
     (case last_index pat cs of
        Some k \<Rightarrow> Some (Suc k)
      | None \<Rightarrow> if has_prefix (c # cs) pat then Some 0 else None)"

text \<open>Where the first byte with property \<open>P\<close> stands.\<close>

fun first_index :: "(char \<Rightarrow> bool) \<Rightarrow> string \<Rightarrow> nat option" where
  "first_index P [] = None"
| "first_index P (c # cs) =
     (if P c then Some 0 else (case first_index P cs of Some k \<Rightarrow> Some (Suc k) | None \<Rightarrow> None))"

text \<open>
  \<^verbatim>\<open>reScript = src="(/static/btprt/.*\.js)"\<close>: a match that starts at the head of the
  text, as its group and the text after the match.
\<close>

definition script_prefix :: string where
  \<open>script_prefix = ''src="/static/btprt/''\<close>

definition script_suffix :: string where
  \<open>script_suffix = ''.js"''\<close>

definition match_script_at :: "string \<Rightarrow> (string \<times> string) option" where
  "match_script_at s =
     (if has_prefix s script_prefix then
        (case last_index script_suffix (line (drop (length script_prefix) s)) of
           None \<Rightarrow> None
         | Some k \<Rightarrow>
             Some (''/static/btprt/'' @ take k (drop (length script_prefix) s) @ ''.js'',
                   drop (k + length script_suffix) (drop (length script_prefix) s)))
      else None)"

lemma match_script_at_shorter:
  assumes "match_script_at s = Some (g, r)"
  shows "length r < length s"
proof -
  have p: "has_prefix s script_prefix"
    using assms by (simp add: match_script_at_def split: if_split_asm)
  have "length (take (length script_prefix) s) = length script_prefix"
    using p by (simp add: has_prefix_def)
  then have "length script_prefix \<le> length s" by simp
  moreover have "0 < length script_prefix" by (simp add: script_prefix_def)
  moreover have "length r \<le> length s - length script_prefix"
    using assms p by (auto simp: match_script_at_def split: option.split_asm)
  ultimately show ?thesis by linarith
qed

text \<open>
  \<^verbatim>\<open>reScript.FindAllStringSubmatch(body, -1)\<close>: group 1 of every match, in document
  order; the search goes on after the end of each match.
\<close>

function reScript_matches :: "string \<Rightarrow> string list" where
  "reScript_matches [] = []"
| "reScript_matches (c # cs) =
     (case match_script_at (c # cs) of
        Some (g, r) \<Rightarrow> g # reScript_matches r
      | None \<Rightarrow> reScript_matches cs)"
  by pat_completeness auto
termination
  by (relation "measure length") (auto dest: match_script_at_shorter)

declare reScript_matches.simps(2) [simp del]

text \<open>
  \<^verbatim>\<open>reClientID = API_CLIENT_ID: \'(.*)\'\<close>, the refactored client's pattern: the group
  of a match that starts at the head of the text runs to the last quote of the line.
  \<open>reClientID_first\<close> is group 1 of the first match, \<^verbatim>\<open>clientMatches[0][1]\<close>.
\<close>

definition client_id_prefix :: string where
  "client_id_prefix = ''API_CLIENT_ID: '' @ [SQ]"

definition match_client_id_at :: "string \<Rightarrow> string option" where
  "match_client_id_at s =
     (if has_prefix s client_id_prefix then
        (case last_index [SQ] (line (drop (length client_id_prefix) s)) of
           None \<Rightarrow> None
         | Some k \<Rightarrow> Some (take k (drop (length client_id_prefix) s)))
      else None)"

fun reClientID_first :: "string \<Rightarrow> string option" where
  "reClientID_first [] = None"
| "reClientID_first (c # cs) =
     (case match_client_id_at (c # cs) of
        Some g \<Rightarrow> Some g
      | None \<Rightarrow> reClientID_first cs)"

text \<open>
  \<^verbatim>\<open>API_CLIENT_ID:\s*['"](.*?)['"]\<close>, the pattern of the first version of the client:
  after the white space a quote of either kind, and the group runs to the first quote of
  either kind on the line.
\<close>

definition is_quote :: "char \<Rightarrow> bool" where
  "is_quote c = (c = SQ \<or> c = DQ)"

definition is_regex_space :: "char \<Rightarrow> bool" where
  "is_regex_space c =
     (c = CHR 0x09 \<or> c = CHR 0x0A \<or> c = CHR 0x0C \<or> c = CHR 0x0D \<or> c = CHR '' '')"

definition match_client_id_v1_at :: "string \<Rightarrow> string option" where
  "match_client_id_v1_at s =
     (if has_prefix s ''API_CLIENT_ID:'' then
        (case dropWhile is_regex_space (drop (length ''API_CLIENT_ID:'') s) of
           [] \<Rightarrow> None
         | q # u \<Rightarrow>
             if is_quote q then
               (case first_index is_quote (line u) of
                  None \<Rightarrow> None
                | Some k \<Rightarrow> Some (take k u))
             else None)
      else None)"

fun reClientID_v1_first :: "string \<Rightarrow> string option" where
  "reClientID_v1_first [] = None"
| "reClientID_v1_first (c # cs) =
     (case match_client_id_v1_at (c # cs) of
        Some g \<Rightarrow> Some g
      | None \<Rightarrow> reClientID_v1_first cs)"

subsection \<open>net/url: query strings\<close>

text \<open>url.QueryEscape, and url.Values.Encode of a set of single-valued keys.\<close>

definition is_unreserved :: "char \<Rightarrow> bool" where
  "is_unreserved c =
     ((97 \<le> byte c \<and> byte c \<le> 122) \<or> (65 \<le> byte c \<and> byte c \<le> 90) \<or> is_digit c \<or>
      c = CHR ''-'' \<or> c = CHR ''_'' \<or> c = CHR ''.'' \<or> c = CHR ''~'')"

definition upper_hex_char :: "nat \<Rightarrow> char" where
  "upper_hex_char d = ''0123456789ABCDEF'' ! d"

definition escape_query_byte :: "char \<Rightarrow> string" where
  "escape_query_byte c =
     (if is_unreserved c then [c]
      else if c = CHR '' '' then ''+''
      else [CHR ''%'', upper_hex_char (byte c div 16), upper_hex_char (byte c mod 16)])"

definition QueryEscape :: "string \<Rightarrow> string" where
  "QueryEscape s = concat (map escape_query_byte s)"

definition Values_Encode :: "(string \<times> string) list \<Rightarrow> string" where
  "Values_Encode kvs =
     Join (map (\<lambda>(k, v). QueryEscape k @ ''='' @ QueryEscape v) (sort_key fst kvs)) ''&''"

section \<open>Data model (package beatport, models)\<close>

record OAuthToken =
  AccessToken :: string
  ExpiresIn :: go_int
  RefreshToken :: string
  TokenType :: string
  Scope :: string


record Artist =
  Artist_ID :: go_int
  Artist_Name :: string
  Artist_Slug :: string

record Track =
  Track_ID :: go_int
  Track_Name :: string
  Track_Artists :: "Artist list"
  Track_MixName :: string

text \<open>The zero values of the types, as \<^verbatim>\<open>var x T\<close> declares them.\<close>

definition zero_OAuthToken :: OAuthToken where
  "zero_OAuthToken =
     \<lparr>AccessToken = [], ExpiresIn = 0, RefreshToken = [], TokenType = [], Scope = []\<rparr>"


definition zero_Artist :: Artist where
  "zero_Artist = \<lparr>Artist_ID = 0, Artist_Name = [], Artist_Slug = []\<rparr>"

definition zero_Track :: Track where
  "zero_Track = \<lparr>Track_ID = 0, Track_Name = [], Track_Artists = [], Track_MixName = []\<rparr>"

section \<open>Errors\<close>

text \<open>
  Every error value the program's functions return, and the one way they panic (a nil
  pointer dereference). The messages the source formats are the constructors' arguments.
\<close>

datatype error =
    TransportError string
  | URLError string
  | ReadError
  | EOF
  | SyntaxError
  | UnmarshalTypeError
  | NotExist
  | OpenError
  | CreateError
  | WriteError
  | NoTokenToSave
  | ClientIDNotFound
  | LoginFailed "(string \<times> json) list"
  | NoLocationHeader string
  | NoCodeInLocation string
  | TokenExchangeFailed string
  | GenresFailed string
  | Top100FallbackFailed string
  | NilDereference
  | IndexOutOfRange

section \<open>encoding/json and the program's types\<close>

text \<open>
  A key of an object names the field whose tag it equals under \<^verbatim>\<open>bytes.EqualFold\<close>.
  The tags of the program are lower-case ASCII, so a key names a field when its folded form
  is the tag: ASCII letters fold to lower case, and the Kelvin sign and the long s, the two
  runes outside ASCII that fold to an ASCII letter, fold to \<open>k\<close> and \<open>s\<close>.
\<close>

definition kelvin :: string where
  "kelvin = [CHR 0xE2, CHR 0x84, CHR 0xAA]"

definition long_s :: string where
  "long_s = [CHR 0xC5, CHR 0xBF]"

definition ascii_lower :: "char \<Rightarrow> char" where
  "ascii_lower c = (if 65 \<le> byte c \<and> byte c \<le> 90 then chr (byte c + 32) else c)"

function foldName :: "string \<Rightarrow> string" where
  "foldName [] = []"
| "foldName (c # cs) =
     (if has_prefix (c # cs) kelvin then CHR ''k'' # foldName (drop 3 (c # cs))
      else if has_prefix (c # cs) long_s then CHR ''s'' # foldName (drop 2 (c # cs))
      else ascii_lower c # foldName cs)"
  by pat_completeness auto
termination
  by (relation "measure length") auto

declare foldName.simps(2) [simp del]

text \<open>
  Unmarshal stores into a value that exists already: \<^verbatim>\<open>null\<close> leaves a string, an
  integer or a struct as it is and makes a slice nil; a value of the wrong kind is an
  \<^verbatim>\<open>UnmarshalTypeError\<close>; a key that names no field is skipped; a key that comes twice
  is stored twice. The callers drop the value whenever an error is reported, so the first
  error ends the model's decoding.
\<close>

definition into_string :: "json \<Rightarrow> string \<Rightarrow> error + string" where
  "into_string j old =
     (case j of JString s \<Rightarrow> Inr s | JNull \<Rightarrow> Inr old | _ \<Rightarrow> Inl UnmarshalTypeError)"

definition into_int :: "json \<Rightarrow> go_int \<Rightarrow> error + go_int" where
  "into_int j old =
     (case j of
        JNumber l \<Rightarrow> (case ParseInt l of Some v \<Rightarrow> Inr v | None \<Rightarrow> Inl UnmarshalTypeError)
      | JNull \<Rightarrow> Inr old
      | _ \<Rightarrow> Inl UnmarshalTypeError)"

fun into_fields ::
  "(string \<Rightarrow> json \<Rightarrow> 'a \<Rightarrow> error + 'a) \<Rightarrow> (string \<times> json) list \<Rightarrow> 'a \<Rightarrow> error + 'a" where
  "into_fields store [] x = Inr x"
| "into_fields store ((k, v) # ms) x =
     (case store (foldName k) v x of
        Inl e \<Rightarrow> Inl e
      | Inr x' \<Rightarrow> into_fields store ms x')"

definition into_struct ::
  "(string \<Rightarrow> json \<Rightarrow> 'a \<Rightarrow> error + 'a) \<Rightarrow> json \<Rightarrow> 'a \<Rightarrow> error + 'a" where
  "into_struct store j old =
     (case j of
        JObject ms \<Rightarrow> into_fields store ms old
      | JNull \<Rightarrow> Inr old
      | _ \<Rightarrow> Inl UnmarshalTypeError)"

text \<open>
  The elements of an array go into the elements the slice has already, and into zero
  values beyond them.
\<close>

fun into_elems ::
  "(json \<Rightarrow> 'a \<Rightarrow> error + 'a) \<Rightarrow> 'a \<Rightarrow> json list \<Rightarrow> 'a list \<Rightarrow> error + 'a list" where
  "into_elems dec zero [] old = Inr []"
| "into_elems dec zero (v # vs) old =
     (case dec v (case old of [] \<Rightarrow> zero | x # _ \<Rightarrow> x) of
        Inl e \<Rightarrow> Inl e
      | Inr x \<Rightarrow>
          (case into_elems dec zero vs (tl old) of
             Inl e \<Rightarrow> Inl e
           | Inr xs \<Rightarrow> Inr (x # xs)))"

definition into_slice ::
  "(json \<Rightarrow> 'a \<Rightarrow> error + 'a) \<Rightarrow> 'a \<Rightarrow> json \<Rightarrow> 'a list \<Rightarrow> error + 'a list" where
  "into_slice dec zero j old =
     (case j of
        JArray vs \<Rightarrow> into_elems dec zero vs old
      | JNull \<Rightarrow> Inr []
      | _ \<Rightarrow> Inl UnmarshalTypeError)"

definition store_field :: "error + 'b \<Rightarrow> ('b \<Rightarrow> 'a) \<Rightarrow> error + 'a" where
  "store_field r upd = (case r of Inl e \<Rightarrow> Inl e | Inr v \<Rightarrow> Inr (upd v))"

text \<open>The struct tags of models.go.\<close>

definition store_OAuthToken :: "string \<Rightarrow> json \<Rightarrow> OAuthToken \<Rightarrow> error + OAuthToken" where
  "store_OAuthToken k v t =
     (if k = ''access_token'' then store_field (into_string v (AccessToken t)) (\<lambda>x. t\<lparr>AccessToken := x\<rparr>)
      else if k = ''expires_in'' then store_field (into_int v (ExpiresIn t)) (\<lambda>x. t\<lparr>ExpiresIn := x\<rparr>)
      else if k = ''refresh_token'' then store_field (into_string v (RefreshToken t)) (\<lambda>x. t\<lparr>RefreshToken := x\<rparr>)
      else if k = ''token_type'' then store_field (into_string v (TokenType t)) (\<lambda>x. t\<lparr>TokenType := x\<rparr>)
      else if k = ''scope'' then store_field (into_string v (Scope t)) (\<lambda>x. t\<lparr>Scope := x\<rparr>)
      else Inr t)"


definition store_Artist :: "string \<Rightarrow> json \<Rightarrow> Artist \<Rightarrow> error + Artist" where
  "store_Artist k v a =
     (if k = ''id'' then store_field (into_int v (Artist_ID a)) (\<lambda>x. a\<lparr>Artist_ID := x\<rparr>)
      else if k = ''name'' then store_field (into_string v (Artist_Name a)) (\<lambda>x. a\<lparr>Artist_Name := x\<rparr>)
      else if k = ''slug'' then store_field (into_string v (Artist_Slug a)) (\<lambda>x. a\<lparr>Artist_Slug := x\<rparr>)
      else Inr a)"

definition store_Track :: "string \<Rightarrow> json \<Rightarrow> Track \<Rightarrow> error + Track" where
  "store_Track k v t =
     (if k = ''id'' then store_field (into_int v (Track_ID t)) (\<lambda>x. t\<lparr>Track_ID := x\<rparr>)
      else if k = ''name'' then store_field (into_string v (Track_Name t)) (\<lambda>x. t\<lparr>Track_Name := x\<rparr>)
      else if k = ''artists'' then
        store_field (into_slice (into_struct store_Artist) zero_Artist v (Track_Artists t))
          (\<lambda>x. t\<lparr>Track_Artists := x\<rparr>)
      else if k = ''mix_name'' then store_field (into_string v (Track_MixName t)) (\<lambda>x. t\<lparr>Track_MixName := x\<rparr>)
      else Inr t)"


definition store_TrackResponse :: "string \<Rightarrow> json \<Rightarrow> Track list \<Rightarrow> error + Track list" where
  "store_TrackResponse k v ts =
     (if k = ''results'' then into_slice (into_struct store_Track) zero_Track v ts else Inr ts)"

definition store_searchResp :: "string \<Rightarrow> json \<Rightarrow> Track list \<Rightarrow> error + Track list" where
  "store_searchResp k v ts =
     (if k = ''tracks'' then into_slice (into_struct store_Track) zero_Track v ts else Inr ts)"

text \<open>
  \<^verbatim>\<open>json.NewDecoder(r).Decode\<close> reads the first value of the stream and leaves what
  follows it unread. The scanner refuses a value in which arrays and objects are nested
  more than 10000 deep (\<^verbatim>\<open>exceeded max depth\<close>, a syntax error).
\<close>

fun depth :: "json \<Rightarrow> nat" where
  "depth (JArray vs) = Suc (foldr (\<lambda>v d. max (depth v) d) vs 0)"
| "depth (JObject ms) = Suc (foldr (\<lambda>m d. max (depth (snd m)) d) ms 0)"
| "depth j = 0"

definition json_Decode :: "string \<Rightarrow> error + json" where
  "json_Decode s =
     (if skip_ws s = [] then Inl EOF
      else (case parse_value (2 * length s + 1) s of
              None \<Rightarrow> Inl SyntaxError
            | Some (j, r) \<Rightarrow> if 10000 < depth j then Inl SyntaxError else Inr j))"

text \<open>
  Decoding into \<^verbatim>\<open>map[string]interface{}\<close>: an object gives its members (the map
  holds the last value of a key that comes twice), \<^verbatim>\<open>null\<close> leaves the nil map, every
  other value is an error. Every number of the object, at any depth, goes into an
  \<^verbatim>\<open>interface{}\<close> and is converted to float64 by \<^verbatim>\<open>strconv.ParseFloat\<close>; a literal
  that is out of range is an \<^verbatim>\<open>UnmarshalTypeError\<close>, which the decoder keeps and reports
  when the value has been read. \<open>fits l\<close> says that the literal \<open>l\<close> converts. The
  float64 itself is not computed: a number of the map is kept as its literal.
\<close>

fun numbers :: "json \<Rightarrow> string list" where
  "numbers (JNumber l) = [l]"
| "numbers (JArray vs) = concat (map numbers vs)"
| "numbers (JObject ms) = concat (map (\<lambda>m. numbers (snd m)) ms)"
| "numbers j = []"

definition into_map :: "(string \<Rightarrow> bool) \<Rightarrow> json \<Rightarrow> error + (string \<times> json) list" where
  "into_map fits j =
     (case j of
        JObject ms \<Rightarrow> if list_all fits (numbers j) then Inr ms else Inl UnmarshalTypeError
      | JNull \<Rightarrow> Inr []
      | _ \<Rightarrow> Inl UnmarshalTypeError)"

text \<open>
  \<^verbatim>\<open>json.NewEncoder(file).Encode(c.Token)\<close>: the fields in the order of the struct,
  under their tags, and a newline.
\<close>

definition Marshal_OAuthToken :: "OAuthToken \<Rightarrow> string" where
  \<open>Marshal_OAuthToken t =
     ''{"access_token":'' @ quote (AccessToken t) @
     '',"expires_in":'' @ FormatInt (sint (ExpiresIn t)) @
     '',"refresh_token":'' @ quote (RefreshToken t) @
     '',"token_type":'' @ quote (TokenType t) @
     '',"scope":'' @ quote (Scope t) @ ''}''\<close>

definition Encode_OAuthToken :: "OAuthToken \<Rightarrow> string" where
  "Encode_OAuthToken t = Marshal_OAuthToken t @ [NL]"

text \<open>\<^verbatim>\<open>json.Marshal\<close> of the login map: the keys in sorted order.\<close>

definition Marshal_credentials :: "string \<Rightarrow> string \<Rightarrow> string" where
  \<open>Marshal_credentials username password =
     ''{"password":'' @ quote password @ '',"username":'' @ quote username @ ''}''\<close>

section \<open>The world outside the program\<close>

text \<open>
  An HTTP request as the client builds it, and a response as \<^verbatim>\<open>http.Client.Do\<close>
  hands it back. Of the response headers only \<^verbatim>\<open>Location\<close> is ever read
  (\<^verbatim>\<open>Header.Get\<close> gives the empty string for a header that is not there). A response
  body is a stream: reading it delivers its whole content, or fails after some prefix, or
  fails because the body was closed before.
\<close>

record request =
  Method :: string
  URL :: string
  Header :: "(string \<times> string) list"
  Payload :: string

datatype body = Readable string | Failing string | Closed

record response =
  StatusCode :: int
  Location :: string
  Body :: body

datatype event = Sent request | Slept nat

text \<open>The token file \<^verbatim>\<open>token.json\<close>: not there, there but not to be opened, or there.\<close>

datatype stored = Missing | Unreadable | Contents string

text \<open>What \<^verbatim>\<open>url.Parse\<close> makes of a string, as far as the program reads it.\<close>

record url =
  Scheme :: string
  Host :: string
  Query :: "(string \<times> string) list"

text \<open>
  The network is an oracle: \<open>net w n req\<close> is what the \<open>n\<close>-th call of
  \<^verbatim>\<open>HTTPClient.Do\<close> from now on returns when it is given \<open>req\<close> (the message of a
  transport failure, or a response). The cookie jar, the per-attempt timeout and the
  redirect policy of the \<^verbatim>\<open>http.Client\<close> live inside the oracle. The trace records,
  oldest first, every request handed to the transport and every sleep, in seconds.
  \<open>create_fails\<close> and \<open>write_fails\<close> say whether \<^verbatim>\<open>os.Create\<close> of the token file and
  the write to it fail. \<^verbatim>\<open>url.Parse\<close> is a parameter of the model: \<open>url_Parse w s\<close>
  is \<open>None\<close> where it reports an error. So is the range check of
  \<^verbatim>\<open>strconv.ParseFloat(l, 64)\<close>: \<open>float64_ok w l\<close> is false where it reports that the
  number literal \<open>l\<close> is out of range.
\<close>

record world =
  net :: "nat \<Rightarrow> request \<Rightarrow> string + response"
  trace :: "event list"
  token_file :: stored
  create_fails :: bool
  write_fails :: bool
  url_Parse :: "string \<Rightarrow> url option"
  float64_ok :: "string \<Rightarrow> bool"

definition HTTPClient_Do :: "request \<Rightarrow> world \<Rightarrow> (string + response) \<times> world" where
  "HTTPClient_Do req w =
     (net w 0 req, w\<lparr>net := (\<lambda>n. net w (Suc n)), trace := trace w @ [Sent req]\<rparr>)"

definition time_Sleep :: "nat \<Rightarrow> world \<Rightarrow> world" where
  "time_Sleep secs w = w\<lparr>trace := trace w @ [Slept secs]\<rparr>"

definition Body_Close :: "response \<Rightarrow> response" where
  "Body_Close resp = resp\<lparr>Body := Closed\<rparr>"

text \<open>\<^verbatim>\<open>io.ReadAll\<close>: the bytes read, and the error if the read failed.\<close>

definition io_ReadAll :: "body \<Rightarrow> string \<times> error option" where
  "io_ReadAll b =
     (case b of
        Readable s \<Rightarrow> (s, None)
      | Failing p \<Rightarrow> (p, Some ReadError)
      | Closed \<Rightarrow> ([], Some ReadError))"

text \<open>
  \<^verbatim>\<open>json.NewDecoder(resp.Body).Decode(&v)\<close>, with \<open>dec\<close> the decoding into the type of
  \<open>v\<close> and \<open>zero\<close> the value \<open>v\<close> holds before. A body whose read fails is taken to
  fail before a whole value has arrived.
\<close>

definition Decode :: "(json \<Rightarrow> 'a \<Rightarrow> error + 'a) \<Rightarrow> body \<Rightarrow> 'a \<Rightarrow> error + 'a" where
  "Decode dec b zero =
     (case b of
        Readable s \<Rightarrow> (case json_Decode s of Inl e \<Rightarrow> Inl e | Inr j \<Rightarrow> dec j zero)
      | Failing p \<Rightarrow> Inl ReadError
      | Closed \<Rightarrow> Inl ReadError)"

text \<open>
  \<^verbatim>\<open>http.NewRequest\<close> with a valid method fails exactly when the URL does not parse.
\<close>

definition http_NewRequest :: "string \<Rightarrow> string \<Rightarrow> string \<Rightarrow> world \<Rightarrow> error + request" where
  "http_NewRequest method u payload w =
     (case url_Parse w u of
        None \<Rightarrow> Inl (URLError u)
      | Some _ \<Rightarrow> Inr \<lparr>Method = method, URL = u, Header = [], Payload = payload\<rparr>)"

text \<open>\<^verbatim>\<open>url.Query().Get\<close>: the first value of a key, or the empty string.\<close>

definition Query_Get :: "url \<Rightarrow> string \<Rightarrow> string" where
  "Query_Get u k = (case map_of (Query u) k of Some v \<Rightarrow> v | None \<Rightarrow> [])"

section \<open>The client (package beatport, client.go)\<close>

definition DefaultAPIBaseURL :: string where
  "DefaultAPIBaseURL = ''https://api.beatport.com/v4''"

definition DefaultAuthBaseURL :: string where
  "DefaultAuthBaseURL = ''https://api.beatport.com/v4/auth''"

definition MaxRetries :: nat where
  "MaxRetries = 3"

text \<open>
  The \<^verbatim>\<open>Client\<close> struct. Its \<^verbatim>\<open>HTTPClient\<close> is the world's network; \<open>Token = None\<close>
  is the nil pointer.
\<close>

record Client =
  Token :: "OAuthToken option"
  ClientID :: string
  BaseURL :: string
  AuthURL :: string

definition NewClient :: Client where
  "NewClient =
     \<lparr>Token = None, ClientID = [], BaseURL = DefaultAPIBaseURL, AuthURL = DefaultAuthBaseURL\<rparr>"

subsection \<open>doRequest\<close>

text \<open>
  The loop \<^verbatim>\<open>for i := 0; i <= MaxRetries; i++\<close>. The pair carried along is the Go
  pair \<^verbatim>\<open>(resp, err)\<close> of the loop's variables; it is what the function returns when
  the loop runs out.
\<close>

function doRequest_loop ::
  "nat \<Rightarrow> request \<Rightarrow> response option \<times> error option \<Rightarrow> world
     \<Rightarrow> (response option \<times> error option) \<times> world" where
  "doRequest_loop i req prev w =
     (if i \<le> MaxRetries then
        (case HTTPClient_Do req (if 0 < i then time_Sleep (2 ^ i) w else w) of
           (Inr resp, w') \<Rightarrow>
             if StatusCode resp < 500 then ((Some resp, None), w')
             else doRequest_loop (i + 1) req (Some (Body_Close resp), None) w'
         | (Inl msg, w') \<Rightarrow> doRequest_loop (i + 1) req (None, Some (TransportError msg)) w')
      else (prev, w))"
  by pat_completeness auto
termination
  by (relation "measure (\<lambda>(i, req, prev, w). Suc MaxRetries - i)") auto

declare doRequest_loop.simps [simp del]

definition doRequest :: "request \<Rightarrow> world \<Rightarrow> (response option \<times> error option) \<times> world" where
  "doRequest req w = doRequest_loop 0 req (None, None) w"

text \<open>
  What every caller does with the pair: \<^verbatim>\<open>if err != nil { return err }\<close>, and then it
  reads through \<^verbatim>\<open>resp\<close>.
\<close>

definition checked :: "(response option \<times> error option) \<times> world \<Rightarrow> (error + response) \<times> world" where
  "checked r =
     (case r of
        ((resp, Some err), w) \<Rightarrow> (Inl err, w)
      | ((Some resp, None), w) \<Rightarrow> (Inr resp, w)
      | ((None, None), w) \<Rightarrow> (Inl NilDereference, w))"

subsection \<open>The token store\<close>

definition LoadToken :: "Client \<Rightarrow> world \<Rightarrow> (error + unit) \<times> Client" where
  "LoadToken c w =
     (case token_file w of
        Missing \<Rightarrow> (Inl NotExist, c)
      | Unreadable \<Rightarrow> (Inl OpenError, c)
      | Contents s \<Rightarrow>
          (case json_Decode s of
             Inl err \<Rightarrow> (Inl err, c)
           | Inr j \<Rightarrow>
               (case into_struct store_OAuthToken j zero_OAuthToken of
                  Inl err \<Rightarrow> (Inl err, c)
                | Inr token \<Rightarrow> (Inr (), c\<lparr>Token := Some token\<rparr>))))"

text \<open>
  \<^verbatim>\<open>os.Create\<close> truncates the file; a failed write leaves it truncated.
\<close>

definition SaveToken :: "Client \<Rightarrow> world \<Rightarrow> (error + unit) \<times> world" where
  "SaveToken c w =
     (case Token c of
        None \<Rightarrow> (Inl NoTokenToSave, w)
      | Some token \<Rightarrow>
          if create_fails w then (Inl CreateError, w)
          else if write_fails w then (Inl WriteError, w\<lparr>token_file := Contents []\<rparr>)
          else (Inr (), w\<lparr>token_file := Contents (Encode_OAuthToken token)\<rparr>))"

subsection \<open>FetchClientID\<close>

text \<open>
  The loop over the matches. \<^verbatim>\<open>http.NewRequest\<close>'s error is dropped by the source, so
  a script URL that does not parse leaves \<^verbatim>\<open>reqScript\<close> nil and \<^verbatim>\<open>HTTPClient.Do\<close>
  dereferences it. A \<^verbatim>\<open>continue\<close> is the recursive call on the remaining matches.
\<close>

definition script_url :: "Client \<Rightarrow> world \<Rightarrow> string \<Rightarrow> string" where
  "script_url c w m =
     (if \<not> has_prefix m ''http'' then
        (case url_Parse w (BaseURL c) of
           Some u \<Rightarrow> Scheme u @ ''://'' @ Host u @ m
         | None \<Rightarrow> ''https://api.beatport.com'' @ m)
      else m)"

fun try_scripts :: "string list \<Rightarrow> Client \<Rightarrow> world \<Rightarrow> (error + unit) \<times> Client \<times> world" where
  "try_scripts [] c w = (Inl ClientIDNotFound, c, w)"
| "try_scripts (m # ms) c w =
     (case http_NewRequest ''GET'' (script_url c w m) [] w of
        Inl _ \<Rightarrow> (Inl NilDereference, c, w)
      | Inr reqScript \<Rightarrow>
          (case checked (doRequest reqScript w) of
             (Inl NilDereference, w') \<Rightarrow> (Inl NilDereference, c, w')
           | (Inl err, w') \<Rightarrow> try_scripts ms c w'
           | (Inr scriptResp, w') \<Rightarrow>
               (case io_ReadAll (Body scriptResp) of
                  (jsBody, Some err) \<Rightarrow> try_scripts ms c w'
                | (jsBody, None) \<Rightarrow>
                    (case reClientID_first jsBody of
                       Some g \<Rightarrow> (Inr (), c\<lparr>ClientID := g\<rparr>, w')
                     | None \<Rightarrow> try_scripts ms c w'))))"

declare try_scripts.simps(2) [simp del]

definition FetchClientID :: "Client \<Rightarrow> world \<Rightarrow> (error + unit) \<times> Client \<times> world" where
  "FetchClientID c w =
     (case http_NewRequest ''GET'' (BaseURL c @ ''/docs/'') [] w of
        Inl err \<Rightarrow> (Inl err, c, w)
      | Inr req \<Rightarrow>
          (case checked (doRequest req w) of
             (Inl err, w') \<Rightarrow> (Inl err, c, w')
           | (Inr resp, w') \<Rightarrow>
               (case io_ReadAll (Body resp) of
                  (body, Some err) \<Rightarrow> (Inl err, c, w')
                | (body, None) \<Rightarrow> try_scripts (reScript_matches body) c w')))"

subsection \<open>Login, Authorize, GetToken\<close>

definition Login :: "string \<Rightarrow> string \<Rightarrow> Client \<Rightarrow> world \<Rightarrow> (error + unit) \<times> Client \<times> world" where
  "Login username password c w =
     (case LoadToken c w of
        (Inr _, c') \<Rightarrow> (Inr (), c', w)
      | (Inl _, c') \<Rightarrow>
          (case http_NewRequest ''POST'' (AuthURL c' @ ''/login/'')
                  (Marshal_credentials username password) w of
             Inl err \<Rightarrow> (Inl err, c', w)
           | Inr req \<Rightarrow>
               (case checked (doRequest (req\<lparr>Header := [(''Content-Type'', ''application/json'')]\<rparr>) w) of
                  (Inl err, w') \<Rightarrow> (Inl err, c', w')
                | (Inr resp, w') \<Rightarrow>
                    (case Decode (\<lambda>j old. into_map (float64_ok w) j) (Body resp) [] of
                       Inl err \<Rightarrow> (Inl err, c', w')
                     | Inr res \<Rightarrow>
                         if map_of res ''username'' = None then (Inl (LoginFailed res), c', w')
                         else (Inr (), c', w')))))"

definition Authorize :: "Client \<Rightarrow> world \<Rightarrow> (error + string) \<times> Client \<times> world" where
  "Authorize c w =
     (if Token c \<noteq> None then (Inr [], c, w)
      else
        (case (if ClientID c = [] then FetchClientID c w else (Inr (), c, w)) of
           (Inl err, c', w') \<Rightarrow> (Inl err, c', w')
         | (Inr _, c', w') \<Rightarrow>
             (case http_NewRequest ''GET''
                     (AuthURL c' @ ''/o/authorize/?'' @
                        Values_Encode [(''response_type'', ''code''), (''client_id'', ClientID c'),
                          (''redirect_uri'', AuthURL c' @ ''/o/post-message/'')]) [] w' of
                Inl err \<Rightarrow> (Inl err, c', w')
              | Inr req \<Rightarrow>
                  (case checked (doRequest req w') of
                     (Inl err, w'') \<Rightarrow> (Inl err, c', w'')
                   | (Inr resp, w'') \<Rightarrow>
                       if Location resp = [] then
                         (Inl (NoLocationHeader (fst (io_ReadAll (Body resp)))), c', w'')
                       else
                         (case url_Parse w'' (Location resp) of
                            None \<Rightarrow> (Inl (URLError (Location resp)), c', w'')
                          | Some locURL \<Rightarrow>
                              if Query_Get locURL ''code'' = [] then
                                (Inl (NoCodeInLocation (Location resp)), c', w'')
                              else (Inr (Query_Get locURL ''code''), c', w''))))))"

definition GetToken :: "string \<Rightarrow> Client \<Rightarrow> world \<Rightarrow> (error + unit) \<times> Client \<times> world" where
  "GetToken code c w =
     (if Token c \<noteq> None then (Inr (), c, w)
      else
        (case http_NewRequest ''POST'' (AuthURL c @ ''/o/token/'')
                (Values_Encode [(''code'', code), (''grant_type'', ''authorization_code''),
                   (''redirect_uri'', AuthURL c @ ''/o/post-message/''),
                   (''client_id'', ClientID c)]) w of
           Inl err \<Rightarrow> (Inl err, c, w)
         | Inr req \<Rightarrow>
             (case checked (doRequest
                     (req\<lparr>Header := [(''Content-Type'', ''application/x-www-form-urlencoded'')]\<rparr>) w) of
                (Inl err, w') \<Rightarrow> (Inl err, c, w')
              | (Inr resp, w') \<Rightarrow>
                  if StatusCode resp \<noteq> 200 then
                    (Inl (TokenExchangeFailed (fst (io_ReadAll (Body resp)))), c, w')
                  else
                    (case Decode (into_struct store_OAuthToken) (Body resp) zero_OAuthToken of
                       Inl err \<Rightarrow> (Inl err, c, w')
                     | Inr token \<Rightarrow>
                         (case SaveToken (c\<lparr>Token := Some token\<rparr>) w' of
                            (r, w'') \<Rightarrow> (r, c\<lparr>Token := Some token\<rparr>, w''))))))"

subsection \<open>The catalog\<close>

text \<open>
  \<^verbatim>\<open>c.Token.AccessToken\<close> dereferences the token; the request has been built by then.
\<close>

definition bearer :: "OAuthToken \<Rightarrow> (string \<times> string) list" where
  "bearer token = [(''Authorization'', ''Bearer '' @ AccessToken token)]"


definition top100_url :: "Client \<Rightarrow> go_int \<Rightarrow> string" where
  "top100_url c genreID =
     BaseURL c @ ''/catalog/genres/'' @ FormatInt (sint genreID) @ ''/top/100?per_page=100''"

definition search_url :: "Client \<Rightarrow> go_int \<Rightarrow> string" where
  "search_url c genreID =
     BaseURL c @ ''/catalog/search?q=genre_id:'' @ FormatInt (sint genreID) @
       ''&per_page=100&type=tracks''"

definition GetTop100 :: "go_int \<Rightarrow> Client \<Rightarrow> world \<Rightarrow> (error + Track list) \<times> world" where
  "GetTop100 genreID c w =
     (case http_NewRequest ''GET'' (top100_url c genreID) [] w of
        Inl err \<Rightarrow> (Inl err, w)
      | Inr req \<Rightarrow>
          (case Token c of
             None \<Rightarrow> (Inl NilDereference, w)
           | Some token \<Rightarrow>
               (case checked (doRequest (req\<lparr>Header := bearer token\<rparr>) w) of
                  (Inl err, w') \<Rightarrow> (Inl err, w')
                | (Inr resp, w') \<Rightarrow>
                    if StatusCode resp = 200 then
                      (Decode (into_struct store_TrackResponse) (Body resp) [], w')
                    else
                      (case http_NewRequest ''GET'' (search_url c genreID) [] w' of
                         Inl err \<Rightarrow> (Inl err, w')
                       | Inr req' \<Rightarrow>
                           (case checked (doRequest (req'\<lparr>Header := bearer token\<rparr>) w') of
                              (Inl err, w'') \<Rightarrow> (Inl err, w'')
                            | (Inr resp', w'') \<Rightarrow>
                                if StatusCode resp' \<noteq> 200 then
                                  (Inl (Top100FallbackFailed (fst (io_ReadAll (Body resp')))), w'')
                                else
                                  (Decode (into_struct store_searchResp) (Body resp') [], w''))))))"

subsection \<open>The first version of the client (beatport/client.go)\<close>

text \<open>
  The first version has no retry loop and no token store, and its URLs are constants.
  \<^verbatim>\<open>HTTPClient.Get\<close> and \<^verbatim>\<open>HTTPClient.Post\<close> build the request themselves and
  return its error.
\<close>

definition APIBaseURL :: string where
  "APIBaseURL = ''https://api.beatport.com/v4''"

definition AuthBaseURL :: string where
  "AuthBaseURL = ''https://api.beatport.com/v4/auth''"

definition HTTPClient_Get :: "string \<Rightarrow> world \<Rightarrow> (error + response) \<times> world" where
  "HTTPClient_Get u w =
     (case http_NewRequest ''GET'' u [] w of
        Inl err \<Rightarrow> (Inl err, w)
      | Inr req \<Rightarrow>
          (case HTTPClient_Do req w of
             (Inl msg, w') \<Rightarrow> (Inl (TransportError msg), w')
           | (Inr resp, w') \<Rightarrow> (Inr resp, w')))"

definition HTTPClient_Post :: "string \<Rightarrow> string \<Rightarrow> string \<Rightarrow> world \<Rightarrow> (error + response) \<times> world" where
  "HTTPClient_Post u contentType payload w =
     (case http_NewRequest ''POST'' u payload w of
        Inl err \<Rightarrow> (Inl err, w)
      | Inr req \<Rightarrow>
          (case HTTPClient_Do (req\<lparr>Header := [(''Content-Type'', contentType)]\<rparr>) w of
             (Inl msg, w') \<Rightarrow> (Inl (TransportError msg), w')
           | (Inr resp, w') \<Rightarrow> (Inr resp, w')))"

fun try_scripts_v1 :: "string list \<Rightarrow> Client \<Rightarrow> world \<Rightarrow> (error + unit) \<times> Client \<times> world" where
  "try_scripts_v1 [] c w = (Inl ClientIDNotFound, c, w)"
| "try_scripts_v1 (m # ms) c w =
     (case HTTPClient_Get (''https://api.beatport.com'' @ m) w of
        (Inl err, w') \<Rightarrow> try_scripts_v1 ms c w'
      | (Inr scriptResp, w') \<Rightarrow>
          (case io_ReadAll (Body scriptResp) of
             (scriptBody, Some err) \<Rightarrow> try_scripts_v1 ms c w'
           | (scriptBody, None) \<Rightarrow>
               (case reClientID_v1_first scriptBody of
                  Some g \<Rightarrow> (Inr (), c\<lparr>ClientID := g\<rparr>, w')
                | None \<Rightarrow> try_scripts_v1 ms c w')))"

declare try_scripts_v1.simps(2) [simp del]

definition FetchClientID_v1 :: "Client \<Rightarrow> world \<Rightarrow> (error + unit) \<times> Client \<times> world" where
  "FetchClientID_v1 c w =
     (case HTTPClient_Get ''https://api.beatport.com/v4/docs/'' w of
        (Inl err, w') \<Rightarrow> (Inl err, c, w')
      | (Inr resp, w') \<Rightarrow>
          (case io_ReadAll (Body resp) of
             (body, Some err) \<Rightarrow> (Inl err, c, w')
           | (body, None) \<Rightarrow> try_scripts_v1 (reScript_matches body) c w'))"

definition Login_v1 :: "string \<Rightarrow> string \<Rightarrow> Client \<Rightarrow> world \<Rightarrow> (error + unit) \<times> Client \<times> world" where
  "Login_v1 username password c w =
     (case HTTPClient_Post (AuthBaseURL @ ''/login/'') ''application/json''
             (Marshal_credentials username password) w of
        (Inl err, w') \<Rightarrow> (Inl err, c, w')
      | (Inr resp, w') \<Rightarrow>
          (case Decode (\<lambda>j old. into_map (float64_ok w) j) (Body resp) [] of
             Inl err \<Rightarrow> (Inl err, c, w')
           | Inr res \<Rightarrow>
               if map_of res ''username'' = None then (Inl (LoginFailed res), c, w')
               else (Inr (), c, w')))"

section \<open>The command line (package cli, and main.go)\<close>

text \<open>
  The authentication steps of \<^verbatim>\<open>Run\<close> (and of \<^verbatim>\<open>main\<close>): each error ends the
  process through \<^verbatim>\<open>log.Fatalf\<close>, with the message of the step.
\<close>

definition Run_authenticate ::
  "string \<Rightarrow> string \<Rightarrow> Client \<Rightarrow> world \<Rightarrow> ((string \<times> error) + unit) \<times> Client \<times> world" where
  "Run_authenticate username password c w =
     (case Login username password c w of
        (Inl err, c1, w1) \<Rightarrow> (Inl (''Login failed'', err), c1, w1)
      | (Inr _, c1, w1) \<Rightarrow>
          (case Authorize c1 w1 of
             (Inl err, c2, w2) \<Rightarrow> (Inl (''Authorization failed'', err), c2, w2)
           | (Inr code, c2, w2) \<Rightarrow>
               (case GetToken code c2 w2 of
                  (Inl err, c3, w3) \<Rightarrow> (Inl (''Token exchange failed'', err), c3, w3)
                | (Inr _, c3, w3) \<Rightarrow> (Inr (), c3, w3))))"

text \<open>An index expression \<^verbatim>\<open>xs[i]\<close> panics out of range.\<close>

definition index :: "'a list \<Rightarrow> nat \<Rightarrow> error + 'a" where
  "index xs i = (if i < length xs then Inr (xs ! i) else Inl IndexOutOfRange)"

text \<open>
  The display loops of \<^verbatim>\<open>Run\<close>: what they print, or the panic that ends them.
\<close>

definition artistName :: "Track \<Rightarrow> error + string" where
  "artistName track =
     (if 0 < length (Track_Artists track) then
        (case index (Track_Artists track) 0 of
           Inl e \<Rightarrow> Inl e
         | Inr a \<Rightarrow> Inr (Artist_Name a))
      else Inr [])"

definition csv_row :: "Track \<Rightarrow> error + string" where
  "csv_row track =
     (case artistName track of
        Inl e \<Rightarrow> Inl e
      | Inr a \<Rightarrow> Inr (a @ '','' @ Track_Name track @ '','' @ Track_MixName track @ [NL]))"

definition text_row :: "nat \<Rightarrow> Track \<Rightarrow> error + string" where
  "text_row i track =
     (case artistName track of
        Inl e \<Rightarrow> Inl e
      | Inr a \<Rightarrow>
          Inr (FormatInt (int i + 1) @ ''. '' @ a @ '' - '' @ Track_Name track @
               '' ('' @ Track_MixName track @ '')'' @ [NL]))"

fun csv_rows :: "Track list \<Rightarrow> error + string" where
  "csv_rows [] = Inr []"
| "csv_rows (track # tracks) =
     (case csv_row track of
        Inl e \<Rightarrow> Inl e
      | Inr l \<Rightarrow> (case csv_rows tracks of Inl e \<Rightarrow> Inl e | Inr ls \<Rightarrow> Inr (l @ ls)))"

fun text_rows :: "nat \<Rightarrow> Track list \<Rightarrow> error + string" where
  "text_rows i [] = Inr []"
| "text_rows i (track # tracks) =
     (case text_row i track of
        Inl e \<Rightarrow> Inl e
      | Inr l \<Rightarrow> (case text_rows (i + 1) tracks of Inl e \<Rightarrow> Inl e | Inr ls \<Rightarrow> Inr (l @ ls)))"

definition Run_csv :: "Track list \<Rightarrow> error + string" where
  "Run_csv tracks =
     (case csv_rows tracks of
        Inl e \<Rightarrow> Inl e
      | Inr ls \<Rightarrow> Inr (''Artist,Title,Mix Name'' @ [NL] @ ls))"

definition Run_text :: "Track list \<Rightarrow> error + string" where
  "Run_text tracks =
     (case text_rows 0 tracks of
        Inl e \<Rightarrow> Inl e
      | Inr ls \<Rightarrow> Inr ([NL] @ ''Top 100 Tracks:'' @ [NL] @ ls))"

text \<open>The display loop of \<^verbatim>\<open>main\<close>: the artists' names joined by a comma and a space.\<close>

definition main_row :: "nat \<Rightarrow> Track \<Rightarrow> string" where
  "main_row i track =
     FormatInt (int i + 1) @ ''. '' @ Join (map Artist_Name (Track_Artists track)) '', '' @
       '' - '' @ Track_Name track @ '' ('' @ Track_MixName track @ '')'' @ [NL]"

fun main_rows :: "nat \<Rightarrow> Track list \<Rightarrow> string" where
  "main_rows i [] = []"
| "main_rows i (track # tracks) = main_row i track @ main_rows (i + 1) tracks"

definition main_text :: "Track list \<Rightarrow> string" where
  "main_text tracks = [NL] @ ''Top 100 Tracks:'' @ [NL] @ main_rows 0 tracks"

section \<open>The retry policy in the specification's words\<close>

text \<open>
  To state what \<open>doRequest\<close> does: an outcome is retried when the transport failed or
  the status is a server error; the outcome handed to the caller is the Go pair
  \<^verbatim>\<open>(resp, err)\<close>; the schedule of \<open>k\<close> attempts is the first attempt followed, for
  each retry \<open>i = 1, ..., k - 1\<close>, by a sleep of \<open>2 ^ i\<close> seconds and the attempt.
\<close>

definition retryable :: "string + response \<Rightarrow> bool" where
  "retryable r = (case r of Inl msg \<Rightarrow> True | Inr resp \<Rightarrow> 500 \<le> StatusCode resp)"

definition surfaced :: "string + response \<Rightarrow> response option \<times> error option" where
  "surfaced r =
     (case r of
        Inl msg \<Rightarrow> (None, Some (TransportError msg))
      | Inr resp \<Rightarrow> (Some (if StatusCode resp < 500 then resp else Body_Close resp), None))"

definition backoff_schedule :: "request \<Rightarrow> nat \<Rightarrow> event list" where
  "backoff_schedule req k = Sent req # concat (map (\<lambda>i. [Slept (2 ^ i), Sent req]) [1..<k])"

definition attempt_world :: "nat \<Rightarrow> request \<Rightarrow> world \<Rightarrow> world" where
  "attempt_world i req w = snd (HTTPClient_Do req (if 0 < i then time_Sleep (2 ^ i) w else w))"

section \<open>The requests the client builds\<close>

text \<open>The request of \<open>Login\<close>, for the base URL it is given.\<close>

definition login_request :: "string \<Rightarrow> string \<Rightarrow> string \<Rightarrow> request" where
  "login_request base username password =
     \<lparr>Method = ''POST'', URL = base @ ''/login/'',
      Header = [(''Content-Type'', ''application/json'')],
      Payload = Marshal_credentials username password\<rparr>"



text \<open>The two requests of \<open>GetTop100\<close> under a token.\<close>

definition top100_request :: "Client \<Rightarrow> OAuthToken \<Rightarrow> go_int \<Rightarrow> request" where
  "top100_request c token genreID =
     \<lparr>Method = ''GET'', URL = top100_url c genreID, Header = bearer token, Payload = []\<rparr>"

definition search_request :: "Client \<Rightarrow> OAuthToken \<Rightarrow> go_int \<Rightarrow> request" where
  "search_request c token genreID =
     \<lparr>Method = ''GET'', URL = search_url c genreID, Header = bearer token, Payload = []\<rparr>"

section \<open>The resolver's loop, one candidate at a time\<close>

text \<open>
  The request of \<open>FetchClientID\<close> for the documentation page, and the request it builds for
  one match of the script pattern.
\<close>

definition docs_request :: "Client \<Rightarrow> request" where
  "docs_request c = \<lparr>Method = ''GET'', URL = BaseURL c @ ''/docs/'', Header = [], Payload = []\<rparr>"

definition script_request :: "Client \<Rightarrow> world \<Rightarrow> string \<Rightarrow> request" where
  "script_request c w m = \<lparr>Method = ''GET'', URL = script_url c w m, Header = [], Payload = []\<rparr>"

text \<open>
  One turn of the loop on a candidate whose request is built: the identifier found in the
  asset, if the fetch and the read succeed and the pattern is there, and the world after
  the fetch.
\<close>

definition probe :: "string \<Rightarrow> Client \<Rightarrow> world \<Rightarrow> string option \<times> world" where
  "probe m c w =
     (case checked (doRequest (script_request c w m) w) of
        (Inl err, w') \<Rightarrow> (None, w')
      | (Inr scriptResp, w') \<Rightarrow>
          (case io_ReadAll (Body scriptResp) of
             (jsBody, Some err) \<Rightarrow> (None, w')
           | (jsBody, None) \<Rightarrow> (reClientID_first jsBody, w')))"

text \<open>
  \<open>skipped ms c w\<close> is the world after the candidates \<open>ms\<close> have all been tried and none
  gave an identifier; \<open>None\<close> when one of them gives one.
\<close>

fun skipped :: "string list \<Rightarrow> Client \<Rightarrow> world \<Rightarrow> world option" where
  "skipped [] c w = Some w"
| "skipped (m # ms) c w =
     (case probe m c w of
        (None, w') \<Rightarrow> skipped ms c w'
      | (Some g, w') \<Rightarrow> None)"

text \<open>
  A candidate fails when its fetch ends with an error or the read of its body does;
  \<open>all_fail ms c w\<close> is the world after candidates that fail one after the other.
\<close>

definition fetch_fails :: "string \<Rightarrow> Client \<Rightarrow> world \<Rightarrow> bool" where
  "fetch_fails m c w =
     (case checked (doRequest (script_request c w m) w) of
        (Inl err, w') \<Rightarrow> True
      | (Inr scriptResp, w') \<Rightarrow> snd (io_ReadAll (Body scriptResp)) \<noteq> None)"

fun all_fail :: "string list \<Rightarrow> Client \<Rightarrow> world \<Rightarrow> world option" where
  "all_fail [] c w = Some w"
| "all_fail (m # ms) c w =
     (if fetch_fails m c w then all_fail ms c (snd (doRequest (script_request c w m) w))
      else None)"

section \<open>The token file\<close>

text \<open>
  The tree that the text of a token stands for, and the tokens whose four strings are
  well-formed UTF-8.
\<close>

definition token_tree :: "OAuthToken \<Rightarrow> json" where
  "token_tree t =
     JObject [(''access_token'', JString (AccessToken t)),
              (''expires_in'', JNumber (FormatInt (sint (ExpiresIn t)))),
              (''refresh_token'', JString (RefreshToken t)),
              (''token_type'', JString (TokenType t)),
              (''scope'', JString (Scope t))]"

definition valid_strings :: "OAuthToken \<Rightarrow> bool" where
  "valid_strings t =
     (ValidString (AccessToken t) \<and> ValidString (RefreshToken t) \<and>
      ValidString (TokenType t) \<and> ValidString (Scope t))"

section \<open>The listings in the specification's words\<close>

text \<open>
  The artist field of a row is the name of the first artist, and empty for a track without
  artists. A row of the CSV output is the artist field, the title and the mix name,
  separated by commas; a row of the text listing is the rank, the artist field, the title
  and the mix name in brackets.
\<close>

definition artist_field :: "Track \<Rightarrow> string" where
  "artist_field track = (case Track_Artists track of [] \<Rightarrow> [] | a # as \<Rightarrow> Artist_Name a)"

definition csv_line :: "Track \<Rightarrow> string" where
  "csv_line track =
     artist_field track @ '','' @ Track_Name track @ '','' @ Track_MixName track @ [NL]"

definition text_line :: "nat \<Rightarrow> Track \<Rightarrow> string" where
  "text_line i track =
     FormatInt (int i + 1) @ ''. '' @ artist_field track @ '' - '' @ Track_Name track @
       '' ('' @ Track_MixName track @ '')'' @ [NL]"

section \<open>Example inputs\<close>

text \<open>A stand-in for \<^verbatim>\<open>url.Parse\<close> on the URLs of the examples, which all parse.\<close>

definition example_url_Parse :: "string \<Rightarrow> url option" where
  "example_url_Parse s =
     Some \<lparr>Scheme = takeWhile (\<lambda>c. c \<noteq> CHR '':'') s,
           Host = takeWhile (\<lambda>c. c \<noteq> CHR ''/'') (drop 3 (dropWhile (\<lambda>c. c \<noteq> CHR '':'') s)),
           Query = []\<rparr>"

definition resp503 :: response where
  "resp503 = \<lparr>StatusCode = 503, Location = [], Body = Readable ''busy''\<rparr>"

definition resp404 :: response where
  "resp404 = \<lparr>StatusCode = 404, Location = [], Body = Readable ''404 page not found''\<rparr>"

text \<open>
  A stand-in for the range check of \<^verbatim>\<open>strconv.ParseFloat\<close> on the literals of the
  examples: a literal converts when its value is below \<open>2 ^ 1024 - 2 ^ 970\<close>, the least
  value that rounds to infinity. The value of a literal is its digits, without the point,
  times ten to the exponent less the number of fraction digits.
\<close>

definition exponent_of :: "string \<Rightarrow> int" where
  "exponent_of es =
     (case es of
        [] \<Rightarrow> 0
      | c # cs \<Rightarrow>
          if c = CHR ''-'' then - int (digits_value 0 cs)
          else if c = CHR ''+'' then int (digits_value 0 cs)
          else int (digits_value 0 es))"

definition example_float64_ok :: "string \<Rightarrow> bool" where
  "example_float64_ok l =
     (let s = (if l \<noteq> [] \<and> hd l = CHR ''-'' then tl l else l);
          ip = takeWhile is_digit s;
          r = dropWhile is_digit s;
          fp = (if r \<noteq> [] \<and> hd r = CHR ''.'' then takeWhile is_digit (tl r) else []);
          r' = (if r \<noteq> [] \<and> hd r = CHR ''.'' then dropWhile is_digit (tl r) else r);
          k = exponent_of (tl r') - int (length fp);
          m = digits_value 0 (ip @ fp)
      in if 0 \<le> k then m * 10 ^ nat k < 2 ^ 1024 - 2 ^ 970
         else m < (2 ^ 1024 - 2 ^ 970) * 10 ^ nat (- k))"

definition quiet_world :: "(nat \<Rightarrow> request \<Rightarrow> string + response) \<Rightarrow> stored \<Rightarrow> world" where
  "quiet_world oracle f =
     \<lparr>net = oracle, trace = [], token_file = f, create_fails = False, write_fails = False,
      url_Parse = example_url_Parse, float64_ok = example_float64_ok\<rparr>"

definition answer_503 :: "nat \<Rightarrow> request \<Rightarrow> string + response" where
  "answer_503 n req = Inr resp503"

definition answer_404 :: "nat \<Rightarrow> request \<Rightarrow> string + response" where
  "answer_404 n req = Inr resp404"

definition always_503 :: world where
  "always_503 = quiet_world answer_503 Missing"

definition always_404 :: world where
  "always_404 = quiet_world answer_404 Missing"

definition req0 :: request where
  "req0 = \<lparr>Method = ''GET'', URL = ''http://h/x'', Header = [], Payload = []\<rparr>"

definition track_no_artists :: Track where
  "track_no_artists =
     \<lparr>Track_ID = 7, Track_Name = ''Untitled'', Track_Artists = [], Track_MixName = ''Dub''\<rparr>"

definition login_ok :: response where
  \<open>login_ok = \<lparr>StatusCode = 200, Location = [],
     Body = Readable ''{"username": "user", "email": "user@example.com"}''\<rparr>\<close>

definition answer_login_ok :: "nat \<Rightarrow> request \<Rightarrow> string + response" where
  "answer_login_ok n req = Inr login_ok"

definition corrupt_token_world :: world where
  "corrupt_token_world = quiet_world answer_login_ok (Contents ''not json'')"

definition stored_token :: string where
  \<open>stored_token = ''{"access_token":"abc","expires_in":36000,"refresh_token":"def","token_type":"Bearer","scope":"app:locker user:dj"}''\<close>

definition token_abc :: OAuthToken where
  "token_abc = \<lparr>AccessToken = ''abc'', ExpiresIn = 36000, RefreshToken = ''def'',
     TokenType = ''Bearer'', Scope = ''app:locker user:dj''\<rparr>"

definition cached_token_world :: world where
  "cached_token_world = quiet_world answer_404 (Contents (stored_token @ [NL]))"

definition login_rejected :: response where
  \<open>login_rejected = \<lparr>StatusCode = 200, Location = [],
     Body = Readable ''{"detail": "Invalid username or password"}''\<rparr>\<close>

definition answer_login_rejected :: "nat \<Rightarrow> request \<Rightarrow> string + response" where
  "answer_login_rejected n req = Inr login_rejected"

definition rejecting_world :: world where
  "rejecting_world = quiet_world answer_login_rejected Missing"

definition accepting_world :: world where
  "accepting_world = quiet_world answer_login_ok Missing"

text \<open>A login response that echoes the user name as a number no float64 holds.\<close>

definition login_overflow :: response where
  \<open>login_overflow = \<lparr>StatusCode = 200, Location = [],
     Body = Readable ''{"username": 1e999}''\<rparr>\<close>

definition answer_login_overflow :: "nat \<Rightarrow> request \<Rightarrow> string + response" where
  "answer_login_overflow n req = Inr login_overflow"

definition overflow_world :: world where
  "overflow_world = quiet_world answer_login_overflow Missing"





definition search_body :: string where
  \<open>search_body = ''{"tracks":[{"id":101,"name":"Track 1","artists":[{"name":"Artist 1"}],"mix_name":"Original Mix"}]}''\<close>

definition search_ok :: response where
  "search_ok = \<lparr>StatusCode = 200, Location = [], Body = Readable search_body\<rparr>"

definition track_1 :: Track where
  "track_1 =
     \<lparr>Track_ID = 101, Track_Name = ''Track 1'',
      Track_Artists = [\<lparr>Artist_ID = 0, Artist_Name = ''Artist 1'', Artist_Slug = []\<rparr>],
      Track_MixName = ''Original Mix''\<rparr>"

definition client_abc :: Client where
  "client_abc = NewClient\<lparr>Token := Some token_abc\<rparr>"

definition answer_search_only :: "nat \<Rightarrow> request \<Rightarrow> string + response" where
  "answer_search_only n req =
     (if URL req = search_url client_abc 1 then Inr search_ok else Inr resp404)"

definition search_only_world :: world where
  "search_only_world = quiet_world answer_search_only Missing"

text \<open>
  A documentation server at \<^verbatim>\<open>http://docs.test\<close>: a page with one script, a page with two
  (the first of which is not served), and the asset \<^verbatim>\<open>main.js\<close>.
\<close>

definition docs_client :: Client where
  "docs_client = NewClient\<lparr>BaseURL := ''http://docs.test''\<rparr>"


definition two_script_page :: string where
  \<open>two_script_page =
     ''<script src="/static/btprt/vendor.js"></script>'' @ [NL] @
     ''<script src="/static/btprt/main.js"></script>''\<close>

definition main_js :: string where
  "main_js = ''... API_CLIENT_ID: '' @ [SQ] @ ''abc123'' @ [SQ] @ '' ...''"

definition ok_response :: "string \<Rightarrow> response" where
  "ok_response s = \<lparr>StatusCode = 200, Location = [], Body = Readable s\<rparr>"

definition answer_docs :: "string \<Rightarrow> string \<Rightarrow> nat \<Rightarrow> request \<Rightarrow> string + response" where
  "answer_docs page asset n req =
     (if URL req = ''http://docs.test/docs/'' then Inr (ok_response page)
      else if URL req = ''http://docs.test/static/btprt/main.js'' then Inr (ok_response asset)
      else Inl ''connection refused'')"



definition two_script_world :: world where
  "two_script_world = quiet_world (answer_docs two_script_page main_js) Missing"

definition main_js_request :: request where
  "main_js_request =
     \<lparr>Method = ''GET'', URL = ''http://docs.test/static/btprt/main.js'', Header = [], Payload = []\<rparr>"

definition vendor_js_request :: request where
  "vendor_js_request =
     \<lparr>Method = ''GET'', URL = ''http://docs.test/static/btprt/vendor.js'', Header = [], Payload = []\<rparr>"

text \<open>
  \<^verbatim>\<open>url.Parse\<close> rejects a percent sign that is not followed by two hexadecimal digits
  (\<^verbatim>\<open>invalid URL escape\<close>); \<open>strict_url_Parse\<close> is the stand-in above with that check.
  The page of \<open>escape_page\<close> lists such a script first and \<^verbatim>\<open>main.js\<close> second, and
  \<open>escape_world\<close> serves it at the default base URL of the client.
\<close>

fun invalid_escape :: "string \<Rightarrow> bool" where
  "invalid_escape [] = False"
| "invalid_escape (c # cs) =
     (if c = CHR ''%'' \<and>
         (case cs of a # b # rest \<Rightarrow> hex_value a = None \<or> hex_value b = None | _ \<Rightarrow> True)
      then True else invalid_escape cs)"

definition strict_url_Parse :: "string \<Rightarrow> url option" where
  "strict_url_Parse s = (if invalid_escape s then None else example_url_Parse s)"

definition escape_page :: string where
  \<open>escape_page =
     ''<script src="/static/btprt/%zz.js"></script>'' @ [NL] @
     ''<script src="/static/btprt/main.js"></script>''\<close>

definition answer_beatport :: "nat \<Rightarrow> request \<Rightarrow> string + response" where
  "answer_beatport n req =
     (if URL req = ''https://api.beatport.com/v4/docs/'' then Inr (ok_response escape_page)
      else if URL req = ''https://api.beatport.com/static/btprt/main.js''
        then Inr (ok_response main_js)
      else Inl ''connection refused'')"

definition escape_world :: world where
  "escape_world = (quiet_world answer_beatport Missing)\<lparr>url_Parse := strict_url_Parse\<rparr>"

text \<open>
  A token whose access token is the single byte \<^verbatim>\<open>0xFF\<close>, which is not UTF-8, the file
  \<open>SaveToken\<close> writes for it (without the final newline), and a world with no token file
  in which files can be written.
\<close>

definition token_ff :: OAuthToken where
  "token_ff = \<lparr>AccessToken = [CHR 0xFF], ExpiresIn = 0, RefreshToken = [], TokenType = [], Scope = []\<rparr>"

definition token_ff_file :: string where
  \<open>token_ff_file =
     ''{"access_token":"'' @ [BSL] @ ''ufffd","expires_in":0,"refresh_token":"","token_type":"","scope":""}''\<close>

definition blank_world :: world where
  "blank_world = quiet_world answer_404 Missing"

section \<open>The decoder's bound on nested calls\<close>

text \<open>
  A string literal, a number, and so every value take at least one byte of the text, and a
  nested call of the parser comes only after a byte has been read. So a text that is read
  with some number of nested calls is read with \<open>2 * length s\<close> of them, and the bound of
  \<open>json_Decode\<close> loses no text: what the parser reads with any bound, \<open>json_Decode\<close>
  reads, unless it is nested too deep.
\<close>

lemma length_skip_ws: "length (skip_ws s) \<le> length s"
  by (simp add: skip_ws_def length_dropWhile_le)

lemma skip_ws_Cons_shorter: "skip_ws s = c # cs \<Longrightarrow> length cs < length s"
  using length_skip_ws [of s] by simp

lemma emit_Some: "emit p x = Some (a, r) \<Longrightarrow> \<exists>b. x = Some (b, r)"
  by (auto simp: emit_def split: option.splits)

lemma unquote_step:
  assumes "unquote (c # cs) = Some (x, r)"
  shows "r = cs \<or> (\<exists>t b. length t \<le> length cs \<and> unquote t = Some (b, r))"
proof -
  have d: "length (drop (utf8_len (c # cs)) (c # cs)) \<le> length cs" if "utf8_len (c # cs) \<noteq> 0"
    using that by simp
  have e: "\<exists>t b. length t \<le> length cs \<and> unquote t = Some (b, r)"
    if "emit p (unquote t) = Some (x, r)" "length t \<le> length cs" for p t
    using emit_Some [OF that(1)] that(2) by blast
  show ?thesis
  proof (cases "c = DQ")
    case True
    with assms show ?thesis by (subst (asm) unquote.simps) simp
  next
    case nq: False
    show ?thesis
    proof (cases "c = BSL")
      case True
      with nq assms obtain e es where cs: "cs = e # es"
        by (subst (asm) unquote.simps) (auto split: list.splits)
      show ?thesis
      proof (cases "e = CHR ''u''")
        case False
        with True nq cs assms obtain y where "emit [y] (unquote es) = Some (x, r)"
          by (subst (asm) unquote.simps) (auto split: option.splits)
        from e [OF this] cs show ?thesis by simp
      next
        case u: True
        with True nq cs assms obtain p k where "emit p (unquote (drop k es)) = Some (x, r)"
          by (subst (asm) unquote.simps) (auto split: option.splits if_splits)
        from e [OF this] cs show ?thesis by simp
      qed
    next
      case False
      with nq assms obtain p t where "emit p (unquote t) = Some (x, r)"
        and "t = cs \<or> (utf8_len (c # cs) \<noteq> 0 \<and> t = drop (utf8_len (c # cs)) (c # cs))"
        by (subst (asm) unquote.simps) (auto split: if_splits)
      then have "emit p (unquote t) = Some (x, r)" and "length t \<le> length cs"
        using d by auto
      then show ?thesis using e by blast
    qed
  qed
qed

lemma unquote_shorter: "unquote s = Some (x, r) \<Longrightarrow> length r < length s"
proof (induction "length s" arbitrary: s x r rule: less_induct)
  case less
  from less.prems obtain c cs where s: "s = c # cs"
    by (cases s) (auto simp: unquote.simps)
  from unquote_step [OF less.prems [unfolded s]]
  show ?case
  proof
    assume "r = cs"
    then show ?thesis by (simp add: s)
  next
    assume "\<exists>t b. length t \<le> length cs \<and> unquote t = Some (b, r)"
    then obtain t b where t: "length t \<le> length cs" "unquote t = Some (b, r)" by blast
    then have "length t < length s" by (simp add: s)
    from less.hyps [OF this t(2)] t(1) show ?thesis by (simp add: s)
  qed
qed


lemma scan_digits_shorter: "scan_digits s = Some (l, r) \<Longrightarrow> length r < length s"
proof -
  assume a: "scan_digits s = Some (l, r)"
  then have t: "takeWhile is_digit s \<noteq> []" and r: "r = dropWhile is_digit s"
    by (auto simp: scan_digits_def split: if_splits)
  have "length (takeWhile is_digit s) + length (dropWhile is_digit s) = length s"
    by (metis length_append takeWhile_dropWhile_id)
  with t r show ?thesis by (cases "takeWhile is_digit s") auto
qed

lemma scan_int_part_shorter: "scan_int_part s = Some (l, r) \<Longrightarrow> length r < length s"
  using scan_digits_shorter [of s l r]
  by (auto simp: scan_int_part_def split: list.splits if_splits)

lemma scan_frac_shorter: "scan_frac s = Some (l, r) \<Longrightarrow> length r \<le> length s"
  by (auto simp: scan_frac_def split: list.splits if_splits
      dest!: emit_Some scan_digits_shorter)

lemma scan_exp_shorter: "scan_exp s = Some (l, r) \<Longrightarrow> length r \<le> length s"
  by (auto simp: scan_exp_def split: list.splits if_splits
      dest!: emit_Some scan_digits_shorter)

lemma scan_number_shorter:
  assumes "scan_number s = Some (l, r)"
  shows "length r < length s"
proof -
  from assms obtain i r1 f r2 where
    i: "(if s \<noteq> [] \<and> hd s = CHR ''-'' then emit ''-'' (scan_int_part (tl s)) else scan_int_part s)
          = Some (i, r1)"
    and f: "scan_frac r1 = Some (f, r2)" and e: "emit (i @ f) (scan_exp r2) = Some (l, r)"
    by (auto simp: scan_number_def split: option.splits)
  from i have "length r1 < length s"
    by (cases s) (auto split: if_splits dest!: emit_Some scan_int_part_shorter)
  moreover from f have "length r2 \<le> length r1" by (rule scan_frac_shorter)
  moreover from e have "length r \<le> length r2" by (auto dest!: emit_Some scan_exp_shorter)
  ultimately show ?thesis by simp
qed

text \<open>A value that is neither an object nor an array is read without nested calls.\<close>

lemma parse_value_scalar:
  assumes "skip_ws s = c # cs" and "c \<noteq> CHR ''{''" and "c \<noteq> CHR ''[''"
  shows "parse_value (Suc k) s = parse_value (Suc n) s"
  using assms by simp

lemma parse_value_scalar_shorter:
  assumes "skip_ws s = c # cs" and "c \<noteq> CHR ''{''" and "c \<noteq> CHR ''[''"
    and "parse_value (Suc n) s = Some (v, r)"
  shows "length r < length s"
proof -
  note l = skip_ws_Cons_shorter [OF assms(1)]
  have le: "length (skip_ws s) \<le> length s" by (rule length_skip_ws)
  from assms(4) show ?thesis
    using assms(1-3) l
    by (auto split: if_splits option.splits
        dest!: unquote_shorter scan_number_shorter)
qed

lemma parse_value_Suc_cases:
  assumes "parse_value (Suc n) s = Some (v, r)"
  obtains (scalar) c cs where "skip_ws s = c # cs" "c \<noteq> CHR ''{''" "c \<noteq> CHR ''[''"
  | (empty_object) cs where "skip_ws s = CHR ''{'' # cs" "skip_ws cs = CHR ''}'' # r"
      "v = JObject []"
  | (object) cs d ds ms where "skip_ws s = CHR ''{'' # cs" "skip_ws cs = d # ds"
      "d \<noteq> CHR ''}''" "parse_members n (d # ds) = Some (ms, r)" "v = JObject ms"
  | (empty_array) cs where "skip_ws s = CHR ''['' # cs" "skip_ws cs = CHR '']'' # r"
      "v = JArray []"
  | (array) cs d ds vs where "skip_ws s = CHR ''['' # cs" "skip_ws cs = d # ds"
      "d \<noteq> CHR '']''" "parse_elems n (d # ds) = Some (vs, r)" "v = JArray vs"
proof -
  from assms obtain c cs where sk: "skip_ws s = c # cs"
    by (cases "skip_ws s") auto
  show thesis
  proof (cases "c = CHR ''{''")
    case True
    with assms sk obtain d ds where sk2: "skip_ws cs = d # ds"
      by (cases "skip_ws cs") auto
    show thesis
    proof (cases "d = CHR ''}''")
      case d: True
      with assms sk sk2 True show thesis by (intro empty_object [of cs]) auto
    next
      case d: False
      with assms sk sk2 True obtain ms where "parse_members n (d # ds) = Some (ms, r)" "v = JObject ms"
        by (auto split: option.splits)
      with sk sk2 True d show thesis by (intro object [of cs d ds ms]) auto
    qed
  next
    case no: False
    show thesis
    proof (cases "c = CHR ''[''")
      case True
      with assms sk obtain d ds where sk2: "skip_ws cs = d # ds"
        by (cases "skip_ws cs") auto
      show thesis
      proof (cases "d = CHR '']''")
        case d: True
        with assms sk sk2 True show thesis by (intro empty_array [of cs]) auto
      next
        case d: False
        with assms sk sk2 True obtain vs where "parse_elems n (d # ds) = Some (vs, r)" "v = JArray vs"
          by (auto split: option.splits)
        with sk sk2 True d show thesis by (intro array [of cs d ds vs]) auto
      qed
    next
      case False
      with no sk show thesis by (intro scalar [of c cs]) auto
    qed
  qed
qed

lemma parse_elems_Suc_cases:
  assumes "parse_elems (Suc n) s = Some (vs, r)"
  obtains (more) v r1 ds vs' where "parse_value n s = Some (v, r1)" "skip_ws r1 = CHR '','' # ds"
      "parse_elems n ds = Some (vs', r)" "vs = v # vs'"
  | (last) v r1 where "parse_value n s = Some (v, r1)" "skip_ws r1 = CHR '']'' # r" "vs = [v]"
proof -
  from assms obtain v r1 where pv: "parse_value n s = Some (v, r1)"
    by (auto split: option.splits)
  with assms obtain d ds where sk: "skip_ws r1 = d # ds"
    by (cases "skip_ws r1") auto
  show thesis
  proof (cases "d = CHR '',''")
    case True
    with assms pv sk obtain vs' where "parse_elems n ds = Some (vs', r)" "vs = v # vs'"
      by (auto split: option.splits)
    with pv sk True show thesis by (intro more [of v r1 ds vs']) auto
  next
    case False
    with assms pv sk show thesis by (intro last [of v r1]) (auto split: if_splits)
  qed
qed

lemma parse_members_Suc_cases:
  assumes "parse_members (Suc n) s = Some (ms, r)"
  obtains (more) ks k r1 es v r2 ds ms' where "skip_ws s = DQ # ks" "unquote ks = Some (k, r1)"
      "skip_ws r1 = CHR '':'' # es" "parse_value n es = Some (v, r2)"
      "skip_ws r2 = CHR '','' # ds" "parse_members n ds = Some (ms', r)" "ms = (k, v) # ms'"
  | (last) ks k r1 es v r2 where "skip_ws s = DQ # ks" "unquote ks = Some (k, r1)"
      "skip_ws r1 = CHR '':'' # es" "parse_value n es = Some (v, r2)"
      "skip_ws r2 = CHR ''}'' # r" "ms = [(k, v)]"
proof -
  from assms obtain q ks where sk: "skip_ws s = q # ks"
    by (cases "skip_ws s") auto
  with assms have q: "q = DQ" by (auto split: if_splits)
  with assms sk obtain k r1 where u: "unquote ks = Some (k, r1)"
    by (auto split: option.splits)
  with assms sk q obtain e es where sk1: "skip_ws r1 = e # es"
    by (cases "skip_ws r1") auto
  with assms sk q u have e: "e = CHR '':''" by (auto split: if_splits)
  with assms sk q u sk1 obtain v r2 where pv: "parse_value n es = Some (v, r2)"
    by (auto split: option.splits)
  with assms sk q u sk1 e obtain d ds where sk2: "skip_ws r2 = d # ds"
    by (cases "skip_ws r2") auto
  show thesis
  proof (cases "d = CHR '',''")
    case True
    with assms sk q u sk1 e pv sk2 obtain ms' where "parse_members n ds = Some (ms', r)" "ms = (k, v) # ms'"
      by (auto split: option.splits)
    with sk q u sk1 e pv sk2 True show thesis by (intro more [of ks k r1 es v r2 ds ms']) auto
  next
    case False
    with assms sk q u sk1 e pv sk2 show thesis
      by (intro last [of ks k r1 es v r2]) (auto split: if_splits)
  qed
qed


lemma parse_members_more_ws:
  assumes "skip_ws s = DQ # ks" "unquote ks = Some (k, r1)"
      "skip_ws r1 = CHR '':'' # es" "parse_value n es = Some (v, r2)"
      "skip_ws r2 = CHR '','' # ds" "parse_members n ds = Some (ms', r)"
  shows "parse_members (Suc n) s = Some ((k, v) # ms', r)"
  using assms by simp

lemma parse_members_last_ws:
  assumes "skip_ws s = DQ # ks" "unquote ks = Some (k, r1)"
      "skip_ws r1 = CHR '':'' # es" "parse_value n es = Some (v, r2)"
      "skip_ws r2 = CHR ''}'' # r"
  shows "parse_members (Suc n) s = Some ([(k, v)], r)"
  using assms by simp

lemma parse_fuel_bound:
  "(\<forall>s v r. parse_value n s = Some (v, r) \<longrightarrow>
      length r < length s \<and> (\<forall>m. 2 * length s \<le> m \<longrightarrow> parse_value m s = Some (v, r)))
   \<and> (\<forall>s vs r. parse_elems n s = Some (vs, r) \<longrightarrow>
      length r < length s \<and> (\<forall>m. 2 * length s + 1 \<le> m \<longrightarrow> parse_elems m s = Some (vs, r)))
   \<and> (\<forall>s ms r. parse_members n s = Some (ms, r) \<longrightarrow>
      length r < length s \<and> (\<forall>m. 2 * length s + 1 \<le> m \<longrightarrow> parse_members m s = Some (ms, r)))"
proof (induction n)
  case 0
  show ?case by simp
next
  case (Suc n)
  then have V: "\<And>s v r m. parse_value n s = Some (v, r) \<Longrightarrow> length r < length s"
    and V': "\<And>s v r m. parse_value n s = Some (v, r) \<Longrightarrow> 2 * length s \<le> m \<Longrightarrow>
               parse_value m s = Some (v, r)"
    and E: "\<And>s vs r m. parse_elems n s = Some (vs, r) \<Longrightarrow> length r < length s"
    and E': "\<And>s vs r m. parse_elems n s = Some (vs, r) \<Longrightarrow> 2 * length s + 1 \<le> m \<Longrightarrow>
               parse_elems m s = Some (vs, r)"
    and M: "\<And>s ms r m. parse_members n s = Some (ms, r) \<Longrightarrow> length r < length s"
    and M': "\<And>s ms r m. parse_members n s = Some (ms, r) \<Longrightarrow> 2 * length s + 1 \<le> m \<Longrightarrow>
               parse_members m s = Some (ms, r)"
    by blast+
  have pv: "length r < length s \<and> (\<forall>m. 2 * length s \<le> m \<longrightarrow> parse_value m s = Some (v, r))"
    if a: "parse_value (Suc n) s = Some (v, r)" for s v r
    using a
  proof (cases rule: parse_value_Suc_cases)
    case (scalar c cs)
    have "length r < length s" by (rule parse_value_scalar_shorter [OF scalar a])
    moreover have "parse_value m s = Some (v, r)" if "2 * length s \<le> m" for m
    proof -
      from that \<open>length r < length s\<close> obtain k where "m = Suc k" by (cases m) auto
      with parse_value_scalar [OF scalar, of k n] a show ?thesis by simp
    qed
    ultimately show ?thesis by blast
  next
    case (empty_object cs)
    note l1 = skip_ws_Cons_shorter [OF empty_object(1)]
    note l2 = skip_ws_Cons_shorter [OF empty_object(2)]
    have "parse_value m s = Some (v, r)" if "2 * length s \<le> m" for m
    proof -
      from that l1 obtain k where "m = Suc k" by (cases m) auto
      with empty_object show ?thesis by simp
    qed
    with l1 l2 show ?thesis by simp
  next
    case (object cs d ds ms)
    note l1 = skip_ws_Cons_shorter [OF object(1)]
    have l2: "length (d # ds) \<le> length cs" using length_skip_ws [of cs] object(2) by simp
    note l3 = M [OF object(4)]
    have "parse_value m s = Some (v, r)" if "2 * length s \<le> m" for m
    proof -
      from that l1 obtain k where k: "m = Suc k" by (cases m) auto
      with that l1 l2 have "2 * length (d # ds) + 1 \<le> k" by simp
      from M' [OF object(4) this] object k show ?thesis by simp
    qed
    with l1 l2 l3 show ?thesis by simp
  next
    case (empty_array cs)
    note l1 = skip_ws_Cons_shorter [OF empty_array(1)]
    note l2 = skip_ws_Cons_shorter [OF empty_array(2)]
    have "parse_value m s = Some (v, r)" if "2 * length s \<le> m" for m
    proof -
      from that l1 obtain k where "m = Suc k" by (cases m) auto
      with empty_array show ?thesis by simp
    qed
    with l1 l2 show ?thesis by simp
  next
    case (array cs d ds vs)
    note l1 = skip_ws_Cons_shorter [OF array(1)]
    have l2: "length (d # ds) \<le> length cs" using length_skip_ws [of cs] array(2) by simp
    note l3 = E [OF array(4)]
    have "parse_value m s = Some (v, r)" if "2 * length s \<le> m" for m
    proof -
      from that l1 obtain k where k: "m = Suc k" by (cases m) auto
      with that l1 l2 have "2 * length (d # ds) + 1 \<le> k" by simp
      from E' [OF array(4) this] array k show ?thesis by simp
    qed
    with l1 l2 l3 show ?thesis by simp
  qed
  have pe: "length r < length s \<and>
      (\<forall>m. 2 * length s + 1 \<le> m \<longrightarrow> parse_elems m s = Some (vs, r))"
    if a: "parse_elems (Suc n) s = Some (vs, r)" for s vs r
    using a
  proof (cases rule: parse_elems_Suc_cases)
    case (more v r1 ds vs')
    note l1 = V [OF more(1)]
    note l2 = skip_ws_Cons_shorter [OF more(2)]
    note l3 = E [OF more(3)]
    have "parse_elems m s = Some (vs, r)" if "2 * length s + 1 \<le> m" for m
    proof -
      from that obtain k where k: "m = Suc k" by (cases m) auto
      with that have "2 * length s \<le> k" by simp
      moreover from this l1 l2 have "2 * length ds + 1 \<le> k" by simp
      ultimately show ?thesis
        using V' [OF more(1), of k] E' [OF more(3), of k] more k by simp
    qed
    with l1 l2 l3 show ?thesis by simp
  next
    case (last v r1)
    note l1 = V [OF last(1)]
    note l2 = skip_ws_Cons_shorter [OF last(2)]
    have "parse_elems m s = Some (vs, r)" if "2 * length s + 1 \<le> m" for m
    proof -
      from that obtain k where k: "m = Suc k" by (cases m) auto
      with that have "2 * length s \<le> k" by simp
      then show ?thesis
        using V' [OF last(1), of k] last k by simp
    qed
    with l1 l2 show ?thesis by simp
  qed
  have pm: "length r < length s \<and>
      (\<forall>m. 2 * length s + 1 \<le> m \<longrightarrow> parse_members m s = Some (ms, r))"
    if a: "parse_members (Suc n) s = Some (ms, r)" for s ms r
    using a
  proof (cases rule: parse_members_Suc_cases)
    case (more ks k r1 es v r2 ds ms')
    note l1 = skip_ws_Cons_shorter [OF more(1)]
    note l2 = unquote_shorter [OF more(2)]
    note l3 = skip_ws_Cons_shorter [OF more(3)]
    note l4 = V [OF more(4)]
    note l5 = skip_ws_Cons_shorter [OF more(5)]
    note l6 = M [OF more(6)]
    from l1 l2 l3 l4 l5 l6 have lr: "length r < length s" by linarith
    have "parse_members m s = Some (ms, r)" if "2 * length s + 1 \<le> m" for m
    proof -
      from that obtain j where j: "m = Suc j" by (cases m) auto
      from that j l1 l2 l3 have "2 * length es \<le> j" by linarith
      then have 1: "parse_value j es = Some (v, r2)" by (rule V' [OF more(4)])
      from that j l1 l2 l3 l4 l5 have "2 * length ds + 1 \<le> j" by linarith
      then have 2: "parse_members j ds = Some (ms', r)" by (rule M' [OF more(6)])
      show ?thesis
        unfolding j more(7)
        by (rule parse_members_more_ws [OF more(1) more(2) more(3) 1 more(5) 2])
    qed
    with lr show ?thesis by blast
  next
    case (last ks k r1 es v r2)
    note l1 = skip_ws_Cons_shorter [OF last(1)]
    note l2 = unquote_shorter [OF last(2)]
    note l3 = skip_ws_Cons_shorter [OF last(3)]
    note l4 = V [OF last(4)]
    note l5 = skip_ws_Cons_shorter [OF last(5)]
    from l1 l2 l3 l4 l5 have lr: "length r < length s" by linarith
    have "parse_members m s = Some (ms, r)" if "2 * length s + 1 \<le> m" for m
    proof -
      from that obtain j where j: "m = Suc j" by (cases m) auto
      from that j l1 l2 l3 have "2 * length es \<le> j" by linarith
      then have 1: "parse_value j es = Some (v, r2)" by (rule V' [OF last(4)])
      show ?thesis
        unfolding j last(6)
        by (rule parse_members_last_ws [OF last(1) last(2) last(3) 1 last(5)])
    qed
    with lr show ?thesis by blast
  qed
  show ?case
    apply (intro conjI)
      apply (intro allI impI, erule pv)
     apply (intro allI impI, erule pe)
    apply (intro allI impI, erule pm)
    done
qed

lemma parse_value_fuel:
  assumes "parse_value n s = Some (v, r)" and "2 * length s \<le> m"
  shows "parse_value m s = Some (v, r)"
  using parse_fuel_bound [of n, THEN conjunct1, rule_format, OF assms(1), THEN conjunct2,
      rule_format, OF assms(2)] .

lemma json_Decode_fuel:
  assumes "parse_value n s = Some (v, r)" and "depth v \<le> 10000"
  shows "json_Decode s = Inr v"
proof -
  have p: "parse_value (2 * length s + 1) s = Some (v, r)"
    by (rule parse_value_fuel [OF assms(1)]) simp
  from assms(1) have "skip_ws s \<noteq> []" by (cases n) auto
  with p assms(2) show ?thesis by (simp add: json_Decode_def)
qed

section \<open>The retry loop\<close>

lemma backoff_schedule_simps:
  "backoff_schedule req 1 = [Sent req]"
  "backoff_schedule req (Suc 0) = [Sent req]"
  "backoff_schedule req 2 = [Sent req, Slept 2, Sent req]"
  "backoff_schedule req 3 = [Sent req, Slept 2, Sent req, Slept 4, Sent req]"
  "backoff_schedule req 4 = [Sent req, Slept 2, Sent req, Slept 4, Sent req, Slept 8, Sent req]"
  by (simp_all add: backoff_schedule_def upt_rec)

lemma net_attempt_world [simp]: "net (attempt_world i req w) n = net w (Suc n)"
  by (simp add: attempt_world_def HTTPClient_Do_def time_Sleep_def)

lemma trace_attempt_world [simp]:
  "trace (attempt_world i req w) = trace w @ (if 0 < i then [Slept (2 ^ i)] else []) @ [Sent req]"
  by (simp add: attempt_world_def HTTPClient_Do_def time_Sleep_def)

lemma loop_last:
  "doRequest_loop (Suc (Suc (Suc (Suc 0)))) req prev w = (prev, w)"
  by (simp add: doRequest_loop.simps MaxRetries_def)

lemma loop_step:
  "i \<le> 3 \<Longrightarrow> doRequest_loop i req prev w =
     (if retryable (net w 0 req)
         then doRequest_loop (Suc i) req (surfaced (net w 0 req)) (attempt_world i req w)
         else (surfaced (net w 0 req), attempt_world i req w))"
  by (subst doRequest_loop.simps)
     (auto simp: MaxRetries_def HTTPClient_Do_def attempt_world_def time_Sleep_def
           retryable_def surfaced_def Let_def split: sum.splits)

lemma doRequest_unfolded:
  "doRequest req w =
     (let w1 = attempt_world 0 req w; w2 = attempt_world 1 req w1;
          w3 = attempt_world 2 req w2; w4 = attempt_world 3 req w3 in
      if \<not> retryable (net w 0 req) then (surfaced (net w 0 req), w1)
      else if \<not> retryable (net w 1 req) then (surfaced (net w 1 req), w2)
      else if \<not> retryable (net w 2 req) then (surfaced (net w 2 req), w3)
      else (surfaced (net w 3 req), w4))"
  by (simp add: doRequest_def loop_step loop_last Let_def numeral_2_eq_2 numeral_3_eq_3)

lemma doRequest_result:
  "fst (doRequest req w) =
     (if \<not> retryable (net w 0 req) then surfaced (net w 0 req)
      else if \<not> retryable (net w 1 req) then surfaced (net w 1 req)
      else if \<not> retryable (net w 2 req) then surfaced (net w 2 req)
      else surfaced (net w 3 req))"
  by (simp add: doRequest_unfolded Let_def)

lemma doRequest_trace:
  "trace (snd (doRequest req w)) = trace w @
     (if \<not> retryable (net w 0 req) then [Sent req]
      else if \<not> retryable (net w 1 req) then [Sent req, Slept 2, Sent req]
      else if \<not> retryable (net w 2 req) then [Sent req, Slept 2, Sent req, Slept 4, Sent req]
      else [Sent req, Slept 2, Sent req, Slept 4, Sent req, Slept 8, Sent req])"
  by (simp add: doRequest_unfolded Let_def)

text \<open>
  Claim C1, as the code has it. For every request and every network: \<open>doRequest\<close> makes
  \<open>k\<close> attempts with \<open>1 \<le> k \<le> MaxRetries + 1 = 4\<close>; every attempt but the last
  ended in a transport failure or a status \<open>\<ge> 500\<close>, and when fewer than four attempts
  were made the last one did not; the trace grows by exactly the schedule of \<open>k\<close>
  attempts, so a sleep of \<open>2 ^ i\<close> seconds (2, 4, 8) stands before each retry and none
  after the last attempt; the outcome of the last attempt is what the caller gets.
  When all four attempts yield a status \<open>\<ge> 500\<close>, four attempts are made and the caller
  gets the last response with a nil error (no error is surfaced). A response with a status
  below 500 (any 2xx or 4xx) on the first attempt is returned after exactly that one attempt.
\<close>

theorem doRequest_retry_policy:
  "(\<exists>k. 1 \<le> k \<and> k \<le> MaxRetries + 1 \<and>
        (\<forall>j. Suc j < k \<longrightarrow> retryable (net w j req)) \<and>
        (k \<le> MaxRetries \<longrightarrow> \<not> retryable (net w (k - 1) req)) \<and>
        trace (snd (doRequest req w)) = trace w @ backoff_schedule req k \<and>
        fst (doRequest req w) = surfaced (net w (k - 1) req))
   \<and> backoff_schedule req (MaxRetries + 1) =
        [Sent req, Slept 2, Sent req, Slept 4, Sent req, Slept 8, Sent req]
   \<and> ((\<forall>j \<le> MaxRetries. \<exists>r. net w j req = Inr r \<and> 500 \<le> StatusCode r) \<longrightarrow>
        trace (snd (doRequest req w)) = trace w @ backoff_schedule req (MaxRetries + 1) \<and>
        (\<exists>r. net w MaxRetries req = Inr r \<and> fst (doRequest req w) = (Some (Body_Close r), None)))
   \<and> (\<forall>r. net w 0 req = Inr r \<and> StatusCode r < 500 \<longrightarrow>
        fst (doRequest req w) = (Some r, None) \<and>
        trace (snd (doRequest req w)) = trace w @ [Sent req])"
proof (intro conjI)
  let ?r = "\<lambda>j. retryable (net w j req)"
  let ?P = "\<lambda>k. 1 \<le> k \<and> k \<le> MaxRetries + 1 \<and> (\<forall>j. Suc j < k \<longrightarrow> ?r j) \<and>
        (k \<le> MaxRetries \<longrightarrow> \<not> ?r (k - 1)) \<and>
        trace (snd (doRequest req w)) = trace w @ backoff_schedule req k \<and>
        fst (doRequest req w) = surfaced (net w (k - 1) req)"
  have lt2: "j = 0" if "Suc j < 2" for j :: nat using that by simp
  have lt3: "j = 0 \<or> j = 1" if "Suc j < 3" for j :: nat using that by auto
  have lt4: "j = 0 \<or> j = 1 \<or> j = 2" if "Suc j < 4" for j :: nat using that by auto
  consider (a) "\<not> ?r 0" | (b) "?r 0" "\<not> ?r 1" | (c) "?r 0" "?r 1" "\<not> ?r 2"
    | (d) "?r 0" "?r 1" "?r 2"
    by blast
  then show "\<exists>k. ?P k"
  proof cases
    case a
    then have "?P 1"
      by (simp add: MaxRetries_def doRequest_result doRequest_trace backoff_schedule_simps)
    then show ?thesis ..
  next
    case b
    then have "?P 2"
      using lt2 by (auto simp: MaxRetries_def doRequest_result doRequest_trace backoff_schedule_simps)
    then show ?thesis ..
  next
    case c
    then have "?P 3"
      using lt3 by (auto simp: MaxRetries_def doRequest_result doRequest_trace backoff_schedule_simps)
    then show ?thesis ..
  next
    case d
    then have "?P 4"
      using lt4 by (auto simp: MaxRetries_def doRequest_result doRequest_trace backoff_schedule_simps)
    then show ?thesis ..
  qed
next
  show "backoff_schedule req (MaxRetries + 1) =
        [Sent req, Slept 2, Sent req, Slept 4, Sent req, Slept 8, Sent req]"
    by (simp add: MaxRetries_def backoff_schedule_simps)
next
  show "(\<forall>j \<le> MaxRetries. \<exists>r. net w j req = Inr r \<and> 500 \<le> StatusCode r) \<longrightarrow>
        trace (snd (doRequest req w)) = trace w @ backoff_schedule req (MaxRetries + 1) \<and>
        (\<exists>r. net w MaxRetries req = Inr r \<and> fst (doRequest req w) = (Some (Body_Close r), None))"
  proof
    assume a: "\<forall>j \<le> MaxRetries. \<exists>r. net w j req = Inr r \<and> 500 \<le> StatusCode r"
    have r: "retryable (net w j req)" if "j \<le> 3" for j
      using a that by (auto simp: retryable_def MaxRetries_def)
    obtain r3 where r3: "net w 3 req = Inr r3" "500 \<le> StatusCode r3"
      using a by (auto simp: MaxRetries_def)
    have "fst (doRequest req w) = (Some (Body_Close r3), None)"
      using r [of 0] r [of 1] r [of 2] r3 by (simp add: doRequest_result surfaced_def)
    moreover have "trace (snd (doRequest req w)) = trace w @ backoff_schedule req 4"
      using r [of 0] r [of 1] r [of 2] by (simp add: doRequest_trace backoff_schedule_simps)
    ultimately show "trace (snd (doRequest req w)) = trace w @ backoff_schedule req (MaxRetries + 1) \<and>
        (\<exists>r. net w MaxRetries req = Inr r \<and> fst (doRequest req w) = (Some (Body_Close r), None))"
      using r3 by (simp add: MaxRetries_def)
  qed
next
  show "\<forall>r. net w 0 req = Inr r \<and> StatusCode r < 500 \<longrightarrow>
        fst (doRequest req w) = (Some r, None) \<and>
        trace (snd (doRequest req w)) = trace w @ [Sent req]"
    by (simp add: doRequest_result doRequest_trace retryable_def surfaced_def)
qed

theorem doRequest_retry_policy_witness:
  "fst (doRequest req0 always_503) = (Some (Body_Close resp503), None)
   \<and> trace (snd (doRequest req0 always_503)) =
       [Sent req0, Slept 2, Sent req0, Slept 4, Sent req0, Slept 8, Sent req0]
   \<and> fst (doRequest req0 always_404) = (Some resp404, None)
   \<and> trace (snd (doRequest req0 always_404)) = [Sent req0]"
  using doRequest_retry_policy [of always_503 req0] doRequest_retry_policy [of always_404 req0]
  by (simp add: always_503_def always_404_def quiet_world_def answer_503_def answer_404_def
      resp503_def resp404_def MaxRetries_def)

text \<open>
  Claim C1 as the specification states it says that the final error is surfaced when every
  attempt yields a server error. On a network that answers 503 to everything,
  \<open>doRequest\<close> returns the fourth response and a nil error.
\<close>

theorem doRequest_all_5xx_returns_no_error:
  "fst (doRequest req0 always_503) =
     (Some \<lparr>StatusCode = 503, Location = [], Body = Closed\<rparr>, None)"
  by (simp add: doRequest_result retryable_def surfaced_def always_503_def quiet_world_def
      answer_503_def resp503_def Body_Close_def)

section \<open>Display of tracks without artists\<close>

lemma artistName_field: "artistName track = Inr (artist_field track)"
  by (cases "Track_Artists track") (simp_all add: artistName_def index_def artist_field_def)

lemma csv_row_line: "csv_row track = Inr (csv_line track)"
  by (simp add: csv_row_def csv_line_def artistName_field)

lemma text_row_line: "text_row i track = Inr (text_line i track)"
  by (simp add: text_row_def text_line_def artistName_field)

lemma csv_rows_lines: "csv_rows tracks = Inr (concat (map csv_line tracks))"
  by (induction tracks) (simp_all add: csv_row_line)

lemma text_rows_lines:
  "text_rows i tracks = Inr (concat (map (\<lambda>(j, t). text_line j t) (enumerate i tracks)))"
  by (induction tracks arbitrary: i) (simp_all add: text_row_line)

lemma main_rows_lines:
  "main_rows i tracks = concat (map (\<lambda>(j, t). main_row j t) (enumerate i tracks))"
  by (induction tracks arbitrary: i) simp_all

text \<open>
  Claim C9. A track whose list of artists is empty is a value of the type like any other.
  For every list of tracks, the CSV output of \<^verbatim>\<open>Run\<close> is the header and one row for each
  track, in order; the text listing of \<^verbatim>\<open>Run\<close> is its heading and one row for each track,
  in order, ranked from 1; so is the listing of \<^verbatim>\<open>main\<close>, with its own rows. Neither
  loop of \<^verbatim>\<open>Run\<close> panics (the guard \<^verbatim>\<open>len(track.Artists) > 0\<close> stands before the index
  expression). The row of a track without artists has an empty artist field in each of the
  three listings.
\<close>

theorem zero_artist_tracks_display:
  "Run_csv tracks = Inr (''Artist,Title,Mix Name'' @ [NL] @ concat (map csv_line tracks))
   \<and> Run_text tracks =
       Inr ([NL] @ ''Top 100 Tracks:'' @ [NL] @
            concat (map (\<lambda>(j, t). text_line j t) (enumerate 0 tracks)))
   \<and> main_text tracks =
       [NL] @ ''Top 100 Tracks:'' @ [NL] @
         concat (map (\<lambda>(j, t). main_row j t) (enumerate 0 tracks))
   \<and> (Track_Artists track = [] \<longrightarrow>
        csv_line track = '','' @ Track_Name track @ '','' @ Track_MixName track @ [NL] \<and>
        text_line i track =
          FormatInt (int i + 1) @ ''.  - '' @ Track_Name track @
            '' ('' @ Track_MixName track @ '')'' @ [NL] \<and>
        main_row i track =
          FormatInt (int i + 1) @ ''.  - '' @ Track_Name track @
            '' ('' @ Track_MixName track @ '')'' @ [NL] \<and>
        csv_row track = Inr (csv_line track) \<and>
        text_row i track = Inr (text_line i track))"
  by (simp add: Run_csv_def Run_text_def main_text_def csv_rows_lines text_rows_lines
      main_rows_lines csv_line_def text_line_def main_row_def artist_field_def csv_row_line
      text_row_line)

lemma FormatInt_ranks: "FormatInt 1 = ''1''" "FormatInt 2 = ''2''"
  by (simp_all add: FormatInt_def FormatUint.simps digit_char_def)

theorem zero_artist_tracks_display_witness:
  "Run_csv [track_no_artists, track_1] =
     Inr ''Artist,Title,Mix Name\<newline>,Untitled,Dub\<newline>Artist 1,Track 1,Original Mix\<newline>''
   \<and> Run_text [track_no_artists, track_1] =
       Inr ''\<newline>Top 100 Tracks:\<newline>1.  - Untitled (Dub)\<newline>2. Artist 1 - Track 1 (Original Mix)\<newline>''
   \<and> main_text [track_no_artists, track_1] =
       ''\<newline>Top 100 Tracks:\<newline>1.  - Untitled (Dub)\<newline>2. Artist 1 - Track 1 (Original Mix)\<newline>''
   \<and> csv_row track_no_artists = Inr '',Untitled,Dub\<newline>''
   \<and> text_row 0 track_no_artists = Inr ''1.  - Untitled (Dub)\<newline>''
   \<and> main_row 0 track_no_artists = ''1.  - Untitled (Dub)\<newline>''"
proof -
  have a: "Track_Artists track_no_artists = []" by (simp add: track_no_artists_def)
  from zero_artist_tracks_display [of "[track_no_artists, track_1]" track_no_artists 0] a
  show ?thesis
    by (simp add: track_no_artists_def track_1_def csv_line_def text_line_def main_row_def
        artist_field_def FormatInt_ranks Join.simps)
qed
section \<open>The token store and Login\<close>

lemma attempt_world_token_file:
  "attempt_world i req (w\<lparr>token_file := f\<rparr>) = (attempt_world i req w)\<lparr>token_file := f\<rparr>"
  by (simp add: attempt_world_def HTTPClient_Do_def time_Sleep_def)

lemma doRequest_token_file:
  "doRequest req (w\<lparr>token_file := f\<rparr>) =
     (fst (doRequest req w), (snd (doRequest req w))\<lparr>token_file := f\<rparr>)"
  by (simp add: doRequest_unfolded Let_def attempt_world_token_file)

lemma checked_token_file:
  "checked (doRequest req (w\<lparr>token_file := f\<rparr>)) =
     (fst (checked (doRequest req w)), (snd (checked (doRequest req w)))\<lparr>token_file := f\<rparr>)"
  by (cases "doRequest req w" rule: prod.exhaust)
     (auto simp: doRequest_token_file checked_def split: prod.splits option.splits)

lemma LoadToken_cases:
  "LoadToken c w =
     (case token_file w of
        Missing \<Rightarrow> (Inl NotExist, c)
      | Unreadable \<Rightarrow> (Inl OpenError, c)
      | Contents s \<Rightarrow>
          (case json_Decode s of
             Inl err \<Rightarrow> (Inl err, c)
           | Inr j \<Rightarrow>
               (case into_struct store_OAuthToken j zero_OAuthToken of
                  Inl err \<Rightarrow> (Inl err, c)
                | Inr token \<Rightarrow> (Inr (), c\<lparr>Token := Some token\<rparr>))))"
  by (simp add: LoadToken_def)

lemma LoadToken_error_client: "fst (LoadToken c w) = Inl e \<Longrightarrow> snd (LoadToken c w) = c"
  by (auto simp: LoadToken_def split: stored.splits sum.splits)

lemma LoadToken_Missing: "LoadToken c (w\<lparr>token_file := Missing\<rparr>) = (Inl NotExist, c)"
  by (simp add: LoadToken_def)

lemma Login_after_load_failure_as_missing:
  assumes e: "fst (LoadToken c w) = Inl e"
  shows "fst (Login username password c w) =
          fst (Login username password c (w\<lparr>token_file := Missing\<rparr>))"
    and "fst (snd (Login username password c w)) =
          fst (snd (Login username password c (w\<lparr>token_file := Missing\<rparr>)))"
    and "snd (snd (Login username password c w)) =
          (snd (snd (Login username password c (w\<lparr>token_file := Missing\<rparr>))))
            \<lparr>token_file := token_file w\<rparr>"
proof -
  have l: "LoadToken c w = (Inl e, c)"
    using LoadToken_error_client [OF e] e by (cases "LoadToken c w") simp
  let ?m = "w\<lparr>token_file := Missing\<rparr>"
  have n: "http_NewRequest m u p ?m = http_NewRequest m u p w" for m u p
    by (simp add: http_NewRequest_def)
  have w: "w = ?m\<lparr>token_file := token_file w\<rparr>" by simp
  have ch: "checked (doRequest req w) =
     (fst (checked (doRequest req ?m)), (snd (checked (doRequest req ?m)))\<lparr>token_file := token_file w\<rparr>)"
    for req
    by (subst w, subst checked_token_file) simp
  show "fst (Login username password c w) = fst (Login username password c ?m)"
    by (simp add: Login_def l LoadToken_Missing n ch split: sum.splits prod.splits)
  show "fst (snd (Login username password c w)) = fst (snd (Login username password c ?m))"
    by (simp add: Login_def l LoadToken_Missing n ch split: sum.splits prod.splits)
  show "snd (snd (Login username password c w)) =
          (snd (snd (Login username password c ?m)))\<lparr>token_file := token_file w\<rparr>"
    by (simp add: Login_def l LoadToken_Missing n ch split: sum.splits prod.splits)
qed
section \<open>The short cut of the authentication flow\<close>

lemma LoadToken_ok_client:
  "fst (LoadToken c w) = Inr () \<Longrightarrow> Token (snd (LoadToken c w)) \<noteq> None"
  by (auto simp: LoadToken_def split: stored.splits sum.splits)

lemma foldName_token_tags:
  "foldName ''access_token'' = ''access_token''"
  "foldName ''expires_in'' = ''expires_in''"
  "foldName ''refresh_token'' = ''refresh_token''"
  "foldName ''token_type'' = ''token_type''"
  "foldName ''scope'' = ''scope''"
  by code_simp+

lemma stored_token_decodes:
  "json_Decode (stored_token @ [NL]) =
     Inr (JObject [(''access_token'', JString ''abc''), (''expires_in'', JNumber ''36000''),
            (''refresh_token'', JString ''def''), (''token_type'', JString ''Bearer''),
            (''scope'', JString ''app:locker user:dj'')])"
  by code_simp

lemma stored_token_loads:
  "LoadToken NewClient cached_token_world = (Inr (), NewClient\<lparr>Token := Some token_abc\<rparr>)"
  by (simp add: LoadToken_def cached_token_world_def quiet_world_def stored_token_decodes
      into_struct_def store_OAuthToken_def foldName_token_tags store_field_def into_string_def
      into_int_def ParseInt_def is_digit_def byte_def zero_OAuthToken_def token_abc_def)

text \<open>
  Claim C3, as the code has it. Whenever \<open>LoadToken\<close> succeeds, \<open>Login\<close> returns at
  once and the whole flow of \<^verbatim>\<open>Run\<close> (\<open>Login\<close>, \<open>Authorize\<close>, \<open>GetToken\<close>) ends
  authenticated with the client holding the loaded token and the world as it was: no request
  was sent. Whenever \<open>Client.Token\<close> is set, \<open>Authorize\<close> and \<open>GetToken\<close> return at
  once, the world as it was. (\<open>Login\<close> does not look at \<open>Client.Token\<close>.)
\<close>

theorem cached_token_short_circuits:
  "(fst (LoadToken c w) = Inr () \<longrightarrow>
      Login username password c w = (Inr (), snd (LoadToken c w), w) \<and>
      Run_authenticate username password c w = (Inr (), snd (LoadToken c w), w) \<and>
      Token (snd (LoadToken c w)) \<noteq> None)
   \<and> (Token c \<noteq> None \<longrightarrow>
        Authorize c w = (Inr [], c, w) \<and> GetToken code c w = (Inr (), c, w))"
proof (intro conjI impI)
  assume l: "fst (LoadToken c w) = Inr ()"
  then have t: "Token (snd (LoadToken c w)) \<noteq> None" by (rule LoadToken_ok_client)
  show "Token (snd (LoadToken c w)) \<noteq> None" by (rule t)
  show lg: "Login username password c w = (Inr (), snd (LoadToken c w), w)"
    using l by (cases "LoadToken c w") (simp add: Login_def)
  show "Run_authenticate username password c w = (Inr (), snd (LoadToken c w), w)"
    using t by (simp add: Run_authenticate_def lg Authorize_def GetToken_def)
qed (simp_all add: Authorize_def GetToken_def)

theorem cached_token_short_circuits_witness:
  "Run_authenticate ''user'' ''pass'' NewClient cached_token_world =
     (Inr (), NewClient\<lparr>Token := Some token_abc\<rparr>, cached_token_world)
   \<and> Authorize (NewClient\<lparr>Token := Some token_abc\<rparr>) always_404 =
       (Inr [], NewClient\<lparr>Token := Some token_abc\<rparr>, always_404)
   \<and> GetToken ''code'' (NewClient\<lparr>Token := Some token_abc\<rparr>) always_404 =
       (Inr (), NewClient\<lparr>Token := Some token_abc\<rparr>, always_404)"
  using cached_token_short_circuits [where c = NewClient and w = cached_token_world
      and username = "''user''" and password = "''pass''"]
    cached_token_short_circuits [where c = "NewClient\<lparr>Token := Some token_abc\<rparr>"
      and w = always_404 and code = "''code''"]
  by (simp add: stored_token_loads)

text \<open>
  Claim C3 as the specification states it lets a token that is already set in the client
  stop the whole flow. With the token set and no token file, \<open>Login\<close> sends the login
  request; here the server answers 404 and the flow ends with a failed login.
\<close>

theorem token_in_memory_does_not_stop_Login:
  "fst (Run_authenticate ''user'' ''pass'' (NewClient\<lparr>Token := Some token_abc\<rparr>) always_404) =
     Inl (''Login failed'', UnmarshalTypeError)
   \<and> trace (snd (snd (Run_authenticate ''user'' ''pass'' (NewClient\<lparr>Token := Some token_abc\<rparr>)
        always_404))) =
       [Sent \<lparr>Method = ''POST'', URL = ''https://api.beatport.com/v4/auth/login/'',
              Header = [(''Content-Type'', ''application/json'')],
              Payload = Marshal_credentials ''user'' ''pass''\<rparr>]"
  by code_simp

section \<open>The criterion of a successful login\<close>

lemma Login_after_response:
  assumes "fst (LoadToken c w) = Inl e"
    and "url_Parse w (AuthURL c @ ''/login/'') \<noteq> None"
    and "checked (doRequest (login_request (AuthURL c) username password) w) = (Inr resp, w')"
  shows "Login username password c w =
     (case Decode (\<lambda>j old. into_map (float64_ok w) j) (Body resp) [] of
        Inl err \<Rightarrow> (Inl err, c, w')
      | Inr res \<Rightarrow>
          if map_of res ''username'' = None then (Inl (LoginFailed res), c, w')
          else (Inr (), c, w'))"
proof -
  have l: "LoadToken c w = (Inl e, c)"
    using assms(1) LoadToken_error_client [OF assms(1)] by (cases "LoadToken c w") simp
  show ?thesis
    using assms(2,3)
    by (auto simp: Login_def l http_NewRequest_def login_request_def split: option.splits)
qed

lemma Login_v1_after_response:
  assumes "url_Parse w (AuthBaseURL @ ''/login/'') \<noteq> None"
    and "net w 0 (login_request AuthBaseURL username password) = Inr resp"
  shows "Login_v1 username password c w =
     (let w' = snd (HTTPClient_Do (login_request AuthBaseURL username password) w) in
      case Decode (\<lambda>j old. into_map (float64_ok w) j) (Body resp) [] of
        Inl err \<Rightarrow> (Inl err, c, w')
      | Inr res \<Rightarrow>
          if map_of res ''username'' = None then (Inl (LoginFailed res), c, w')
          else (Inr (), c, w'))"
proof -
  obtain u where u: "url_Parse w (AuthBaseURL @ ''/login/'') = Some u"
    using assms(1) by blast
  have "HTTPClient_Post (AuthBaseURL @ ''/login/'') ''application/json''
          (Marshal_credentials username password) w =
        (Inr resp, snd (HTTPClient_Do (login_request AuthBaseURL username password) w))"
    using assms(2)
    by (simp add: HTTPClient_Post_def http_NewRequest_def u login_request_def HTTPClient_Do_def)
  then show ?thesis
    by (simp add: Login_v1_def Let_def)
qed

lemma rejected_body_decodes:
  "Decode (\<lambda>j old. into_map fits j) (Body login_rejected) [] =
     Inr [(''detail'', JString ''Invalid username or password'')]"
  by code_simp

lemma ok_body_decodes:
  "Decode (\<lambda>j old. into_map fits j) (Body login_ok) [] =
     Inr [(''username'', JString ''user''), (''email'', JString ''user@example.com'')]"
  by code_simp

lemma float64_ok_quiet_world: "float64_ok (quiet_world oracle f) = example_float64_ok"
  by (simp add: quiet_world_def)

lemma overflow_literal: "\<not> example_float64_ok ''1e999''"
  by (simp add: example_float64_ok_def exponent_of_def Let_def is_digit_def byte_def)

lemma overflow_body_parses:
  \<open>json_Decode ''{"username": 1e999}'' = Inr (JObject [(''username'', JNumber ''1e999'')])\<close>
  by code_simp

lemma overflow_body_decodes:
  "Decode (\<lambda>j old. into_map example_float64_ok j) (Body login_overflow) [] =
     Inl UnmarshalTypeError"
  by (simp add: Decode_def login_overflow_def overflow_body_parses into_map_def overflow_literal)

text \<open>
  Claim C7. Whenever the login request got a response (in \<open>Login\<close>, after the token
  file failed to load; in the first version \<open>Login_v1\<close>, always), the login succeeds
  exactly when the body decodes to an object that has the key \<^verbatim>\<open>username\<close>; the status
  of the response plays no part. When the body decodes and the key is absent, the error is
  \<open>LoginFailed\<close> and carries the decoded object. When the body does not decode, the
  error is the decoder's. The body decodes when it starts with an object, or with
  \<^verbatim>\<open>null\<close>, none of whose numbers is out of the range of float64.
\<close>

theorem Login_succeeds_iff_username_echoed:
  "((\<exists>e. fst (LoadToken c w) = Inl e) \<and> url_Parse w (AuthURL c @ ''/login/'') \<noteq> None \<and>
    checked (doRequest (login_request (AuthURL c) username password) w) = (Inr resp, w') \<longrightarrow>
      (fst (Login username password c w) = Inr ()) =
        (\<exists>res. Decode (\<lambda>j old. into_map (float64_ok w) j) (Body resp) [] = Inr res \<and>
               map_of res ''username'' \<noteq> None) \<and>
      (\<forall>res. Decode (\<lambda>j old. into_map (float64_ok w) j) (Body resp) [] = Inr res \<and>
             map_of res ''username'' = None \<longrightarrow>
             fst (Login username password c w) = Inl (LoginFailed res)) \<and>
      (\<forall>err. Decode (\<lambda>j old. into_map (float64_ok w) j) (Body resp) [] = Inl err \<longrightarrow>
             fst (Login username password c w) = Inl err))
   \<and> (url_Parse w (AuthBaseURL @ ''/login/'') \<noteq> None \<and>
       net w 0 (login_request AuthBaseURL username password) = Inr resp \<longrightarrow>
      (fst (Login_v1 username password c w) = Inr ()) =
        (\<exists>res. Decode (\<lambda>j old. into_map (float64_ok w) j) (Body resp) [] = Inr res \<and>
               map_of res ''username'' \<noteq> None) \<and>
      (\<forall>res. Decode (\<lambda>j old. into_map (float64_ok w) j) (Body resp) [] = Inr res \<and>
             map_of res ''username'' = None \<longrightarrow>
             fst (Login_v1 username password c w) = Inl (LoginFailed res)) \<and>
      (\<forall>err. Decode (\<lambda>j old. into_map (float64_ok w) j) (Body resp) [] = Inl err \<longrightarrow>
             fst (Login_v1 username password c w) = Inl err))
   \<and> (\<forall>ms. into_map fits (JObject ms) =
         (if list_all fits (numbers (JObject ms)) then Inr ms else Inl UnmarshalTypeError))
   \<and> into_map fits JNull = Inr []
   \<and> (\<forall>vs l s b. into_map fits (JArray vs) = Inl UnmarshalTypeError \<and>
         into_map fits (JNumber l) = Inl UnmarshalTypeError \<and>
         into_map fits (JString s) = Inl UnmarshalTypeError \<and>
         into_map fits (JBool b) = Inl UnmarshalTypeError)"
proof (intro conjI impI)
  assume a: "(\<exists>e. fst (LoadToken c w) = Inl e) \<and> url_Parse w (AuthURL c @ ''/login/'') \<noteq> None \<and>
    checked (doRequest (login_request (AuthURL c) username password) w) = (Inr resp, w')"
  then obtain e where e: "fst (LoadToken c w) = Inl e" by blast
  note r = Login_after_response [OF e conjunct1 [OF conjunct2 [OF a]] conjunct2 [OF conjunct2 [OF a]]]
  show "(fst (Login username password c w) = Inr ()) =
        (\<exists>res. Decode (\<lambda>j old. into_map (float64_ok w) j) (Body resp) [] = Inr res \<and>
               map_of res ''username'' \<noteq> None)"
    by (simp add: r split: sum.splits)
  show "\<forall>res. Decode (\<lambda>j old. into_map (float64_ok w) j) (Body resp) [] = Inr res \<and>
             map_of res ''username'' = None \<longrightarrow>
             fst (Login username password c w) = Inl (LoginFailed res)"
    by (simp add: r split: sum.splits)
  show "\<forall>err. Decode (\<lambda>j old. into_map (float64_ok w) j) (Body resp) [] = Inl err \<longrightarrow>
             fst (Login username password c w) = Inl err"
    by (simp add: r split: sum.splits)
next
  assume a: "url_Parse w (AuthBaseURL @ ''/login/'') \<noteq> None \<and>
       net w 0 (login_request AuthBaseURL username password) = Inr resp"
  note r = Login_v1_after_response [OF conjunct1 [OF a] conjunct2 [OF a]]
  show "(fst (Login_v1 username password c w) = Inr ()) =
        (\<exists>res. Decode (\<lambda>j old. into_map (float64_ok w) j) (Body resp) [] = Inr res \<and>
               map_of res ''username'' \<noteq> None)"
    by (simp add: r Let_def split: sum.splits)
  show "\<forall>res. Decode (\<lambda>j old. into_map (float64_ok w) j) (Body resp) [] = Inr res \<and>
             map_of res ''username'' = None \<longrightarrow>
             fst (Login_v1 username password c w) = Inl (LoginFailed res)"
    by (simp add: r Let_def split: sum.splits)
  show "\<forall>err. Decode (\<lambda>j old. into_map (float64_ok w) j) (Body resp) [] = Inl err \<longrightarrow>
             fst (Login_v1 username password c w) = Inl err"
    by (simp add: r Let_def split: sum.splits)
qed (simp_all add: into_map_def)

theorem Login_succeeds_iff_username_echoed_witness:
  "StatusCode login_rejected = 200
   \<and> fst (Login ''user'' ''pass'' NewClient rejecting_world) =
       Inl (LoginFailed [(''detail'', JString ''Invalid username or password'')])
   \<and> fst (Login_v1 ''user'' ''pass'' NewClient rejecting_world) =
       Inl (LoginFailed [(''detail'', JString ''Invalid username or password'')])
   \<and> fst (Login ''user'' ''pass'' NewClient accepting_world) = Inr ()
   \<and> fst (Login_v1 ''user'' ''pass'' NewClient accepting_world) = Inr ()
   \<and> fst (Login ''user'' ''pass'' NewClient overflow_world) = Inl UnmarshalTypeError
   \<and> fst (Login_v1 ''user'' ''pass'' NewClient overflow_world) = Inl UnmarshalTypeError"
proof -
  let ?req = "login_request (AuthURL NewClient) ''user'' ''pass''"
  have u: "url_Parse rejecting_world s \<noteq> None" "url_Parse accepting_world s \<noteq> None"
      "url_Parse overflow_world s \<noteq> None" for s
    by (simp_all add: rejecting_world_def accepting_world_def overflow_world_def quiet_world_def
        example_url_Parse_def)
  have l: "fst (LoadToken NewClient rejecting_world) = Inl NotExist"
      "fst (LoadToken NewClient accepting_world) = Inl NotExist"
      "fst (LoadToken NewClient overflow_world) = Inl NotExist"
    by (simp_all add: LoadToken_def rejecting_world_def accepting_world_def overflow_world_def
        quiet_world_def)
  have n: "net rejecting_world 0 r = Inr login_rejected" "net accepting_world 0 r = Inr login_ok"
      "net overflow_world 0 r = Inr login_overflow" for r
    by (simp_all add: rejecting_world_def accepting_world_def overflow_world_def quiet_world_def
        answer_login_rejected_def answer_login_ok_def answer_login_overflow_def)
  have f: "float64_ok rejecting_world = example_float64_ok"
      "float64_ok accepting_world = example_float64_ok"
      "float64_ok overflow_world = example_float64_ok"
    by (simp_all add: rejecting_world_def accepting_world_def overflow_world_def
        float64_ok_quiet_world)
  have s: "StatusCode login_rejected = 200" "StatusCode login_ok = 200"
      "StatusCode login_overflow = 200"
    by (simp_all add: login_rejected_def login_ok_def login_overflow_def)
  have d1: "checked (doRequest ?req rejecting_world) =
      (Inr login_rejected, snd (checked (doRequest ?req rejecting_world)))"
    by (simp add: doRequest_unfolded Let_def checked_def retryable_def surfaced_def n s)
  have d2: "checked (doRequest ?req accepting_world) =
      (Inr login_ok, snd (checked (doRequest ?req accepting_world)))"
    by (simp add: doRequest_unfolded Let_def checked_def retryable_def surfaced_def n s)
  have d3: "checked (doRequest ?req overflow_world) =
      (Inr login_overflow, snd (checked (doRequest ?req overflow_world)))"
    by (simp add: doRequest_unfolded Let_def checked_def retryable_def surfaced_def n s)
  have v: "AuthURL NewClient = AuthBaseURL"
    by (simp add: NewClient_def AuthBaseURL_def DefaultAuthBaseURL_def)
  from Login_succeeds_iff_username_echoed
      [where c = NewClient and w = rejecting_world and username = "''user''"
         and password = "''pass''" and resp = login_rejected
         and w' = "snd (checked (doRequest ?req rejecting_world))"]
    Login_succeeds_iff_username_echoed
      [where c = NewClient and w = accepting_world and username = "''user''"
         and password = "''pass''" and resp = login_ok
         and w' = "snd (checked (doRequest ?req accepting_world))"]
    Login_succeeds_iff_username_echoed
      [where c = NewClient and w = overflow_world and username = "''user''"
         and password = "''pass''" and resp = login_overflow
         and w' = "snd (checked (doRequest ?req overflow_world))"]
  show ?thesis
    using u l n s d1 d2 d3 rejected_body_decodes ok_body_decodes overflow_body_decodes
    by (simp add: v [symmetric] f)
qed
section \<open>GetToken: the token in memory and in the store\<close>

lemma doRequest_frame:
  "token_file (snd (doRequest req w)) = token_file w"
  "create_fails (snd (doRequest req w)) = create_fails w"
  "write_fails (snd (doRequest req w)) = write_fails w"
  "url_Parse (snd (doRequest req w)) = url_Parse w"
  by (simp_all add: doRequest_unfolded Let_def attempt_world_def HTTPClient_Do_def time_Sleep_def)

lemma snd_checked [simp]: "snd (checked r) = snd r"
  by (cases r) (auto simp: checked_def split: option.splits)

lemma doRequest_trace_starts:
  "\<exists>rest. trace (snd (doRequest req w)) = trace w @ Sent req # rest"
  by (simp add: doRequest_trace)






section \<open>GetTop100: the fallback to the search endpoint\<close>

lemma GetTop100_after_primary:
  assumes "Token c = Some token"
    and "url_Parse w (top100_url c genreID) \<noteq> None"
    and "url_Parse w (search_url c genreID) \<noteq> None"
    and "checked (doRequest (top100_request c token genreID) w) = (Inr resp, w1)"
    and "StatusCode resp \<noteq> 200"
  shows "GetTop100 genreID c w =
     (case checked (doRequest (search_request c token genreID) w1) of
        (Inl err, w2) \<Rightarrow> (Inl err, w2)
      | (Inr resp2, w2) \<Rightarrow>
          if StatusCode resp2 \<noteq> 200 then
            (Inl (Top100FallbackFailed (fst (io_ReadAll (Body resp2)))), w2)
          else (Decode (into_struct store_searchResp) (Body resp2) [], w2))"
proof -
  obtain u1 u2 where u: "url_Parse w (top100_url c genreID) = Some u1"
      "url_Parse w (search_url c genreID) = Some u2"
    using assms(2,3) by blast
  have "w1 = snd (checked (doRequest (top100_request c token genreID) w))"
    using assms(4) by simp
  then have "url_Parse w1 = url_Parse w" by (simp add: doRequest_frame)
  then show ?thesis
    using assms(1,4,5) u
    by (simp add: GetTop100_def http_NewRequest_def top100_request_def search_request_def)
qed

lemma foldName_tracks: "foldName ''tracks'' = ''tracks''"
  by code_simp

lemma search_body_parses:
  "json_Decode search_body =
     Inr (JObject [(''tracks'', JArray [JObject [(''id'', JNumber ''101''),
            (''name'', JString ''Track 1''),
            (''artists'', JArray [JObject [(''name'', JString ''Artist 1'')]]),
            (''mix_name'', JString ''Original Mix'')]])])"
  by code_simp

lemma foldName_track_tags:
  "foldName ''id'' = ''id''" "foldName ''name'' = ''name''"
  "foldName ''artists'' = ''artists''" "foldName ''mix_name'' = ''mix_name''"
  "foldName ''slug'' = ''slug''"
  by code_simp+

lemma search_body_decodes:
  "Decode (into_struct store_searchResp) (Body search_ok) [] = Inr [track_1]"
  by (simp add: Decode_def search_ok_def search_body_parses into_struct_def store_searchResp_def
      foldName_tracks foldName_track_tags into_slice_def store_Track_def store_Artist_def
      store_field_def into_string_def into_int_def ParseInt_def is_digit_def byte_def
      zero_Track_def zero_Artist_def track_1_def)

text \<open>
  Claim C2. For every genre id: when the request to the ranked endpoint ends with a response
  whose status is not 200, the next request \<open>GetTop100\<close> sends is a GET to the search
  endpoint with the query \<^verbatim>\<open>q=genre_id:<id>\<close> and \<^verbatim>\<open>type=tracks\<close>. When that
  request ends with a response of status 200, the result is the decoding of its body, and
  the tracks are the list under the key \<^verbatim>\<open>tracks\<close>; when it ends with another status,
  the error is the fallback's, with the fallback's body; when it fails in the transport,
  the error is that failure. Nothing of the primary response is in the result.
\<close>

theorem GetTop100_falls_back_to_search:
  "(Token c = Some token \<and> url_Parse w (top100_url c genreID) \<noteq> None \<and>
    url_Parse w (search_url c genreID) \<noteq> None \<and>
    checked (doRequest (top100_request c token genreID) w) = (Inr resp, w1) \<and>
    StatusCode resp \<noteq> 200 \<longrightarrow>
      (\<exists>rest. trace (snd (GetTop100 genreID c w)) =
         trace w1 @ Sent (search_request c token genreID) # rest) \<and>
      (\<forall>resp2 w2. checked (doRequest (search_request c token genreID) w1) = (Inr resp2, w2) \<longrightarrow>
         (StatusCode resp2 = 200 \<longrightarrow>
            GetTop100 genreID c w = (Decode (into_struct store_searchResp) (Body resp2) [], w2)) \<and>
         (StatusCode resp2 \<noteq> 200 \<longrightarrow>
            GetTop100 genreID c w =
              (Inl (Top100FallbackFailed (fst (io_ReadAll (Body resp2)))), w2))) \<and>
      (\<forall>err w2. checked (doRequest (search_request c token genreID) w1) = (Inl err, w2) \<longrightarrow>
         GetTop100 genreID c w = (Inl err, w2)))
   \<and> URL (search_request c token genreID) =
       BaseURL c @ ''/catalog/search?q=genre_id:'' @ FormatInt (sint genreID) @
         ''&per_page=100&type=tracks''
   \<and> Method (search_request c token genreID) = ''GET''
   \<and> into_struct store_searchResp (JObject [(''tracks'', v)]) [] =
       into_slice (into_struct store_Track) zero_Track v []"
proof (intro conjI impI)
  assume a: "Token c = Some token \<and> url_Parse w (top100_url c genreID) \<noteq> None \<and>
    url_Parse w (search_url c genreID) \<noteq> None \<and>
    checked (doRequest (top100_request c token genreID) w) = (Inr resp, w1) \<and>
    StatusCode resp \<noteq> 200"
  have g: "GetTop100 genreID c w =
     (case checked (doRequest (search_request c token genreID) w1) of
        (Inl err, w2) \<Rightarrow> (Inl err, w2)
      | (Inr resp2, w2) \<Rightarrow>
          if StatusCode resp2 \<noteq> 200 then
            (Inl (Top100FallbackFailed (fst (io_ReadAll (Body resp2)))), w2)
          else (Decode (into_struct store_searchResp) (Body resp2) [], w2))"
    using a GetTop100_after_primary [of c token w genreID resp w1] by blast
  have "snd (GetTop100 genreID c w) = snd (doRequest (search_request c token genreID) w1)"
    by (cases "checked (doRequest (search_request c token genreID) w1)" rule: prod.exhaust;
        cases "fst (checked (doRequest (search_request c token genreID) w1))")
       (auto simp: g dest: arg_cong [where f = snd])
  then show "\<exists>rest. trace (snd (GetTop100 genreID c w)) =
         trace w1 @ Sent (search_request c token genreID) # rest"
    using doRequest_trace_starts [of "search_request c token genreID" w1] by simp
  show "\<forall>resp2 w2. checked (doRequest (search_request c token genreID) w1) = (Inr resp2, w2) \<longrightarrow>
         (StatusCode resp2 = 200 \<longrightarrow>
            GetTop100 genreID c w = (Decode (into_struct store_searchResp) (Body resp2) [], w2)) \<and>
         (StatusCode resp2 \<noteq> 200 \<longrightarrow>
            GetTop100 genreID c w =
              (Inl (Top100FallbackFailed (fst (io_ReadAll (Body resp2)))), w2))"
    by (simp add: g)
  show "\<forall>err w2. checked (doRequest (search_request c token genreID) w1) = (Inl err, w2) \<longrightarrow>
         GetTop100 genreID c w = (Inl err, w2)"
    by (simp add: g)
qed (simp_all add: search_request_def search_url_def into_struct_def store_searchResp_def
      foldName_tracks split: sum.splits)

theorem GetTop100_falls_back_to_search_witness:
  "fst (GetTop100 1 client_abc search_only_world) = Inr [track_1]
   \<and> Track_Name track_1 = ''Track 1''
   \<and> map Artist_Name (Track_Artists track_1) = [''Artist 1'']
   \<and> fst (GetTop100 1 client_abc always_404) = Inl (Top100FallbackFailed ''404 page not found'')"
proof -
  let ?p = "top100_request client_abc token_abc 1"
  let ?s = "search_request client_abc token_abc 1"
  have neq: "top100_url client_abc 1 \<noteq> search_url client_abc 1"
    by (simp add: top100_url_def search_url_def)
  have n: "net search_only_world k ?p = Inr resp404" "net always_404 k r = Inr resp404"
      "net search_only_world k ?s = Inr search_ok" for k r
    using neq
    by (simp_all add: search_only_world_def always_404_def quiet_world_def answer_search_only_def
        answer_404_def top100_request_def search_request_def)
  have s: "StatusCode resp404 = 404" "StatusCode search_ok = 200"
      "Body resp404 = Readable ''404 page not found''"
    by (simp_all add: resp404_def search_ok_def)
  have d1: "checked (doRequest ?p search_only_world) =
      (Inr resp404, snd (checked (doRequest ?p search_only_world)))"
     "checked (doRequest ?p always_404) = (Inr resp404, snd (checked (doRequest ?p always_404)))"
    by (simp_all add: doRequest_unfolded Let_def checked_def retryable_def surfaced_def n s)
  have n2: "net (snd (checked (doRequest ?p search_only_world))) 0 ?s = Inr search_ok"
      "net (snd (checked (doRequest ?p always_404))) 0 ?s = Inr resp404"
    by (simp_all add: doRequest_unfolded Let_def retryable_def n s)
  have d2: "checked (doRequest ?s (snd (checked (doRequest ?p search_only_world)))) =
      (Inr search_ok, snd (checked (doRequest ?s (snd (checked (doRequest ?p search_only_world))))))"
     "checked (doRequest ?s (snd (checked (doRequest ?p always_404)))) =
      (Inr resp404, snd (checked (doRequest ?s (snd (checked (doRequest ?p always_404))))))"
    using n2
    by (simp_all add: doRequest_unfolded [of ?s] Let_def checked_def retryable_def surfaced_def s)
  have p: "Token client_abc = Some token_abc" "url_Parse search_only_world u \<noteq> None"
     "url_Parse always_404 u \<noteq> None" for u
    by (simp_all add: client_abc_def NewClient_def search_only_world_def always_404_def
        quiet_world_def example_url_Parse_def)
  from GetTop100_falls_back_to_search
      [where c = client_abc and token = token_abc and w = search_only_world and genreID = 1
         and resp = resp404 and ?w1.0 = "snd (checked (doRequest ?p search_only_world))"]
    GetTop100_falls_back_to_search
      [where c = client_abc and token = token_abc and w = always_404 and genreID = 1
         and resp = resp404 and ?w1.0 = "snd (checked (doRequest ?p always_404))"]
  show ?thesis
    using d1 d2 p s search_body_decodes
    by (simp add: io_ReadAll_def track_1_def)
qed

section \<open>Login after a token file that does not load\<close>

lemma Login_after_transport_failure:
  assumes "fst (LoadToken c w) = Inl e"
    and "url_Parse w (AuthURL c @ ''/login/'') \<noteq> None"
    and "checked (doRequest (login_request (AuthURL c) username password) w) = (Inl err, w')"
  shows "Login username password c w = (Inl err, c, w')"
proof -
  have l: "LoadToken c w = (Inl e, c)"
    using assms(1) LoadToken_error_client [OF assms(1)] by (cases "LoadToken c w") simp
  show ?thesis
    using assms(2,3)
    by (auto simp: Login_def l http_NewRequest_def login_request_def split: option.splits)
qed

lemma Login_sends_login_request:
  assumes "fst (LoadToken c w) = Inl e"
    and "url_Parse w (AuthURL c @ ''/login/'') \<noteq> None"
  shows "\<exists>rest. trace (snd (snd (Login username password c w))) =
     trace w @ Sent (login_request (AuthURL c) username password) # rest"
proof -
  let ?req = "login_request (AuthURL c) username password"
  obtain r w' where d: "checked (doRequest ?req w) = (r, w')"
    by (cases "checked (doRequest ?req w)")
  then have w': "w' = snd (doRequest ?req w)"
    using snd_checked [of "doRequest ?req w"] by simp
  have "snd (snd (Login username password c w)) = w'"
  proof (cases r)
    case (Inl err)
    with Login_after_transport_failure [OF assms, of username password err w'] d
    show ?thesis by simp
  next
    case (Inr resp)
    with Login_after_response [OF assms, of username password resp w'] d
    show ?thesis by (simp split: sum.splits)
  qed
  with w' doRequest_trace_starts [of ?req w] show ?thesis by simp
qed

text \<open>
  Claim C5, as the code has it. \<open>LoadToken\<close> reports an error when the token file is
  missing, when it cannot be opened and when its content does not decode; the errors differ.
  \<open>Login\<close>, which calls it, asks only whether there was an error. Whenever \<open>LoadToken\<close>
  fails, for whatever reason, \<open>Login\<close> goes on to the network login: it sends the login
  request, and its result is decided by the answer to that request alone (success when the
  answer echoes the user name, the login's own error otherwise, the transport's error when
  there is no answer); the error of \<open>LoadToken\<close> is dropped. So \<open>Login\<close> does exactly
  what it does when the file is missing: every failure to load means "must authenticate",
  and none is an error of the flow.
\<close>

theorem LoadToken_errors_all_mean_authenticate:
  "(token_file w = Missing \<longrightarrow> LoadToken c w = (Inl NotExist, c))
   \<and> (token_file w = Unreadable \<longrightarrow> LoadToken c w = (Inl OpenError, c))
   \<and> (\<forall>s e. token_file w = Contents s \<and> json_Decode s = Inl e \<longrightarrow> LoadToken c w = (Inl e, c))
   \<and> (\<forall>s j e. token_file w = Contents s \<and> json_Decode s = Inr j \<and>
          into_struct store_OAuthToken j zero_OAuthToken = Inl e \<longrightarrow> LoadToken c w = (Inl e, c))
   \<and> (\<forall>e. fst (LoadToken c w) = Inl e \<and> url_Parse w (AuthURL c @ ''/login/'') \<noteq> None \<longrightarrow>
        (\<exists>rest. trace (snd (snd (Login username password c w))) =
           trace w @ Sent (login_request (AuthURL c) username password) # rest))
   \<and> (\<forall>e resp w'. fst (LoadToken c w) = Inl e \<and> url_Parse w (AuthURL c @ ''/login/'') \<noteq> None \<and>
          checked (doRequest (login_request (AuthURL c) username password) w) = (Inr resp, w') \<longrightarrow>
        Login username password c w =
          (case Decode (\<lambda>j old. into_map (float64_ok w) j) (Body resp) [] of
             Inl err \<Rightarrow> (Inl err, c, w')
           | Inr res \<Rightarrow>
               if map_of res ''username'' = None then (Inl (LoginFailed res), c, w')
               else (Inr (), c, w')))
   \<and> (\<forall>e err w'. fst (LoadToken c w) = Inl e \<and> url_Parse w (AuthURL c @ ''/login/'') \<noteq> None \<and>
          checked (doRequest (login_request (AuthURL c) username password) w) = (Inl err, w') \<longrightarrow>
        Login username password c w = (Inl err, c, w'))
   \<and> (\<forall>e. fst (LoadToken c w) = Inl e \<longrightarrow>
        fst (Login username password c w) =
          fst (Login username password c (w\<lparr>token_file := Missing\<rparr>)) \<and>
        fst (snd (Login username password c w)) =
          fst (snd (Login username password c (w\<lparr>token_file := Missing\<rparr>))) \<and>
        snd (snd (Login username password c w)) =
          (snd (snd (Login username password c (w\<lparr>token_file := Missing\<rparr>))))
            \<lparr>token_file := token_file w\<rparr>)"
proof (intro conjI)
  show "token_file w = Missing \<longrightarrow> LoadToken c w = (Inl NotExist, c)"
    by (simp add: LoadToken_def)
  show "token_file w = Unreadable \<longrightarrow> LoadToken c w = (Inl OpenError, c)"
    by (simp add: LoadToken_def)
  show "\<forall>s e. token_file w = Contents s \<and> json_Decode s = Inl e \<longrightarrow> LoadToken c w = (Inl e, c)"
    by (simp add: LoadToken_def)
  show "\<forall>s j e. token_file w = Contents s \<and> json_Decode s = Inr j \<and>
          into_struct store_OAuthToken j zero_OAuthToken = Inl e \<longrightarrow> LoadToken c w = (Inl e, c)"
    by (simp add: LoadToken_def)
  show "\<forall>e. fst (LoadToken c w) = Inl e \<and> url_Parse w (AuthURL c @ ''/login/'') \<noteq> None \<longrightarrow>
        (\<exists>rest. trace (snd (snd (Login username password c w))) =
           trace w @ Sent (login_request (AuthURL c) username password) # rest)"
    using Login_sends_login_request [of c w _ username password] by blast
  show "\<forall>e resp w'. fst (LoadToken c w) = Inl e \<and> url_Parse w (AuthURL c @ ''/login/'') \<noteq> None \<and>
          checked (doRequest (login_request (AuthURL c) username password) w) = (Inr resp, w') \<longrightarrow>
        Login username password c w =
          (case Decode (\<lambda>j old. into_map (float64_ok w) j) (Body resp) [] of
             Inl err \<Rightarrow> (Inl err, c, w')
           | Inr res \<Rightarrow>
               if map_of res ''username'' = None then (Inl (LoginFailed res), c, w')
               else (Inr (), c, w'))"
    using Login_after_response [of c w _ username password] by blast
  show "\<forall>e err w'. fst (LoadToken c w) = Inl e \<and> url_Parse w (AuthURL c @ ''/login/'') \<noteq> None \<and>
          checked (doRequest (login_request (AuthURL c) username password) w) = (Inl err, w') \<longrightarrow>
        Login username password c w = (Inl err, c, w')"
    using Login_after_transport_failure [of c w _ username password] by blast
  show "\<forall>e. fst (LoadToken c w) = Inl e \<longrightarrow>
        fst (Login username password c w) =
          fst (Login username password c (w\<lparr>token_file := Missing\<rparr>)) \<and>
        fst (snd (Login username password c w)) =
          fst (snd (Login username password c (w\<lparr>token_file := Missing\<rparr>))) \<and>
        snd (snd (Login username password c w)) =
          (snd (snd (Login username password c (w\<lparr>token_file := Missing\<rparr>))))
            \<lparr>token_file := token_file w\<rparr>"
    using Login_after_load_failure_as_missing [of c w _ username password] by blast
qed

lemma corrupt_token_fails_to_load:
  "fst (LoadToken NewClient corrupt_token_world) = Inl SyntaxError"
  by code_simp

theorem LoadToken_errors_all_mean_authenticate_witness:
  "fst (LoadToken NewClient corrupt_token_world) = Inl SyntaxError
   \<and> fst (Login ''user'' ''pass'' NewClient corrupt_token_world) = Inr ()
   \<and> (\<exists>rest. trace (snd (snd (Login ''user'' ''pass'' NewClient corrupt_token_world))) =
         Sent (login_request (AuthURL NewClient) ''user'' ''pass'') # rest)
   \<and> fst (Login ''user'' ''pass'' NewClient corrupt_token_world) =
       fst (Login ''user'' ''pass'' NewClient (corrupt_token_world\<lparr>token_file := Missing\<rparr>))"
proof -
  let ?w = corrupt_token_world
  let ?req = "login_request (AuthURL NewClient) ''user'' ''pass''"
  have u: "url_Parse ?w s \<noteq> None" for s
    by (simp add: corrupt_token_world_def quiet_world_def example_url_Parse_def)
  have t: "trace ?w = []" by (simp add: corrupt_token_world_def quiet_world_def)
  have f: "float64_ok ?w = example_float64_ok"
    by (simp add: corrupt_token_world_def float64_ok_quiet_world)
  have n: "net ?w 0 r = Inr login_ok" for r
    by (simp add: corrupt_token_world_def quiet_world_def answer_login_ok_def)
  have s: "StatusCode login_ok = 200" by (simp add: login_ok_def)
  have d: "checked (doRequest ?req ?w) = (Inr login_ok, snd (checked (doRequest ?req ?w)))"
    by (simp add: doRequest_unfolded Let_def checked_def retryable_def surfaced_def n s)
  note T = LoadToken_errors_all_mean_authenticate
      [where c = NewClient and w = ?w and username = "''user''" and password = "''pass''"]
  note T5 = T [THEN conjunct2, THEN conjunct2, THEN conjunct2, THEN conjunct2]
  note l = corrupt_token_fails_to_load
  have 1: "\<exists>rest. trace (snd (snd (Login ''user'' ''pass'' NewClient ?w))) =
           trace ?w @ Sent ?req # rest"
    by (rule T5 [THEN conjunct1, rule_format, of SyntaxError]) (simp add: l u)
  have 2: "Login ''user'' ''pass'' NewClient ?w =
          (case Decode (\<lambda>j old. into_map (float64_ok ?w) j) (Body login_ok) [] of
             Inl err \<Rightarrow> (Inl err, NewClient, snd (checked (doRequest ?req ?w)))
           | Inr res \<Rightarrow>
               if map_of res ''username'' = None
               then (Inl (LoginFailed res), NewClient, snd (checked (doRequest ?req ?w)))
               else (Inr (), NewClient, snd (checked (doRequest ?req ?w))))"
    by (rule T5 [THEN conjunct2, THEN conjunct1, rule_format, of SyntaxError])
       (simp only: l u d [symmetric] not_False_eq_True simp_thms)
  have 3: "fst (Login ''user'' ''pass'' NewClient ?w) =
          fst (Login ''user'' ''pass'' NewClient (?w\<lparr>token_file := Missing\<rparr>))"
    by (rule T5 [THEN conjunct2, THEN conjunct2, THEN conjunct2, rule_format, of SyntaxError,
          THEN conjunct1]) (rule l)
  from 2 have "fst (Login ''user'' ''pass'' NewClient ?w) = Inr ()"
    by (simp add: f ok_body_decodes)
  with 1 3 corrupt_token_fails_to_load show ?thesis by (simp add: t)
qed

text \<open>
  Claim C5 as the specification states it makes a token file that does not decode a hard
  error. With such a file \<open>LoadToken\<close> fails with a syntax error, and \<open>Login\<close> goes
  on to the network login and succeeds.
\<close>

theorem corrupt_token_is_not_a_hard_error:
  "fst (LoadToken NewClient corrupt_token_world) = Inl SyntaxError
   \<and> fst (Login ''user'' ''pass'' NewClient corrupt_token_world) = Inr ()
   \<and> length (trace (snd (snd (Login ''user'' ''pass'' NewClient corrupt_token_world)))) = 1"
  by code_simp

section \<open>FetchClientID: the first identifier found\<close>

lemma checked_doRequest_no_panic: "fst (checked (doRequest req w)) \<noteq> Inl NilDereference"
  by (simp add: doRequest_unfolded Let_def checked_def surfaced_def split: sum.splits)

lemma snd_probe: "snd (probe m c w) = snd (doRequest (script_request c w m) w)"
  by (cases "checked (doRequest (script_request c w m) w)" rule: prod.exhaust;
      cases "fst (checked (doRequest (script_request c w m) w))")
     (auto simp: probe_def split: prod.splits option.splits dest: arg_cong [where f = snd])

lemma url_Parse_probe: "url_Parse (snd (probe m c w)) = url_Parse w"
  by (simp add: snd_probe doRequest_frame)

lemma script_url_cong: "url_Parse w' = url_Parse w \<Longrightarrow> script_url c w' m = script_url c w m"
  by (simp add: script_url_def)

lemma try_scripts_step:
  assumes "url_Parse w (script_url c w m) \<noteq> None"
  shows "try_scripts (m # ms) c w =
     (case probe m c w of
        (Some g, w') \<Rightarrow> (Inr (), c\<lparr>ClientID := g\<rparr>, w')
      | (None, w') \<Rightarrow> try_scripts ms c w')"
proof -
  obtain u where u: "url_Parse w (script_url c w m) = Some u" using assms by blast
  obtain r w' where r: "checked (doRequest (script_request c w m) w) = (r, w')"
    by (cases "checked (doRequest (script_request c w m) w)")
  have np: "r \<noteq> Inl NilDereference"
    using checked_doRequest_no_panic [of "script_request c w m" w] r by simp
  show ?thesis
  proof (cases r)
    case (Inl e)
    with np have "e \<noteq> NilDereference" by simp
    then show ?thesis
      using r Inl
      by (cases e)
         (simp_all add: try_scripts.simps(2) http_NewRequest_def u script_request_def [symmetric]
            probe_def)
  next
    case (Inr resp)
    then show ?thesis
      using r
      by (simp add: try_scripts.simps(2) http_NewRequest_def u script_request_def [symmetric]
          probe_def split: prod.splits option.splits)
  qed
qed

lemma try_scripts_found:
  assumes "\<forall>x \<in> set (pre @ [m]). url_Parse w (script_url c w x) \<noteq> None"
    and "skipped pre c w = Some w1"
    and "probe m c w1 = (Some g, w2)"
  shows "try_scripts (pre @ m # post) c w = (Inr (), c\<lparr>ClientID := g\<rparr>, w2)"
  using assms
proof (induction pre arbitrary: w)
  case Nil
  then show ?case by (simp add: try_scripts_step)
next
  case (Cons x pre)
  from Cons.prems(2) obtain w' where p: "probe x c w = (None, w')" and s: "skipped pre c w' = Some w1"
    by (auto split: prod.splits option.splits)
  have e: "url_Parse w' = url_Parse w" using url_Parse_probe [of x c w] p by simp
  have "\<forall>y \<in> set (pre @ [m]). url_Parse w' (script_url c w' y) \<noteq> None"
    using Cons.prems(1) by (simp add: e script_url_cong [OF e])
  from Cons.IH [OF this s Cons.prems(3)] show ?case
    using Cons.prems(1) p by (simp add: try_scripts_step)
qed


lemma try_scripts_error_means_all_tried:
  assumes "\<forall>x \<in> set ms. url_Parse w (script_url c w x) \<noteq> None"
    and "fst (try_scripts ms c w) = Inl e"
  shows "e = ClientIDNotFound \<and> skipped ms c w = Some (snd (snd (try_scripts ms c w)))"
  using assms
proof (induction ms arbitrary: w)
  case Nil
  then show ?case by simp
next
  case (Cons x ms)
  obtain r w' where p: "probe x c w = (r, w')" by (cases "probe x c w")
  have st: "try_scripts (x # ms) c w =
     (case probe x c w of
        (Some g, w') \<Rightarrow> (Inr (), c\<lparr>ClientID := g\<rparr>, w')
      | (None, w') \<Rightarrow> try_scripts ms c w')"
    using Cons.prems(1) by (simp add: try_scripts_step)
  show ?case
  proof (cases r)
    case None
    have e: "url_Parse w' = url_Parse w" using url_Parse_probe [of x c w] p by simp
    have h: "\<forall>y \<in> set ms. url_Parse w' (script_url c w' y) \<noteq> None"
      using Cons.prems(1) by (simp add: e script_url_cong [OF e])
    have "fst (try_scripts ms c w') = Inl e" using Cons.prems(2) st p None by simp
    from Cons.IH [OF h this] show ?thesis using st p None by simp
  next
    case (Some g)
    then show ?thesis using Cons.prems(2) st p by simp
  qed
qed




lemma FetchClientID_after_page:
  assumes "url_Parse w (BaseURL c @ ''/docs/'') \<noteq> None"
    and "checked (doRequest (docs_request c) w) = (Inr resp, w0)"
    and "Body resp = Readable page"
  shows "FetchClientID c w = try_scripts (reScript_matches page) c w0"
  using assms
  by (auto simp: FetchClientID_def http_NewRequest_def docs_request_def io_ReadAll_def)



lemma fetch_fails_probe: "fetch_fails m c w \<Longrightarrow> probe m c w = (None, snd (doRequest (script_request c w m) w))"
  by (cases "checked (doRequest (script_request c w m) w)" rule: prod.exhaust;
      cases "fst (checked (doRequest (script_request c w m) w))")
     (auto simp: fetch_fails_def probe_def split: prod.splits option.splits
        dest: arg_cong [where f = snd])

lemma all_fail_skipped: "all_fail ms c w = Some w1 \<Longrightarrow> skipped ms c w = Some w1"
  by (induction ms arbitrary: w) (auto simp: fetch_fails_probe split: if_split_asm)


lemma two_script_page_matches:
  "reScript_matches two_script_page = [''/static/btprt/vendor.js'', ''/static/btprt/main.js'']"
  by code_simp

lemma main_js_client_id: "reClientID_first main_js = Some ''abc123''"
  by code_simp

lemma docs_script_urls:
  "script_url docs_client (quiet_world oracle f) ''/static/btprt/main.js'' =
     ''http://docs.test/static/btprt/main.js''"
  "script_url docs_client (quiet_world oracle f) ''/static/btprt/vendor.js'' =
     ''http://docs.test/static/btprt/vendor.js''"
  by (simp_all add: script_url_def has_prefix_def quiet_world_def example_url_Parse_def
      docs_client_def)

lemma example_urls_parse: "url_Parse (quiet_world oracle f) s \<noteq> None"
  by (simp add: quiet_world_def example_url_Parse_def)

lemma first_answer_returned:
  assumes "net w 0 req = Inr resp" and "StatusCode resp < 500"
  shows "checked (doRequest req w) = (Inr resp, attempt_world 0 req w)"
  using assms by (simp add: doRequest_unfolded Let_def checked_def retryable_def surfaced_def)



lemma example_attempt_world:
  "url_Parse w = example_url_Parse \<Longrightarrow> url_Parse (attempt_world i req w) = example_url_Parse"
  by (simp add: attempt_world_def HTTPClient_Do_def time_Sleep_def)

lemma example_script_requests:
  assumes "url_Parse w = example_url_Parse"
  shows "script_request docs_client w ''/static/btprt/main.js'' = main_js_request"
    and "script_request docs_client w ''/static/btprt/vendor.js'' = vendor_js_request"
    and "url_Parse w s \<noteq> None"
  using assms
  by (simp_all add: script_request_def script_url_def has_prefix_def example_url_Parse_def
      docs_client_def main_js_request_def vendor_js_request_def)

lemma probe_answered:
  assumes "net w 0 (script_request c w m) = Inr (ok_response b)"
  shows "probe m c w = (reClientID_first b, attempt_world 0 (script_request c w m) w)"
  using first_answer_returned [OF assms] by (simp add: probe_def ok_response_def io_ReadAll_def)


section \<open>FetchClientID: a candidate that cannot be fetched\<close>

text \<open>
  A candidate whose request is built and whose fetch or read fails is skipped, in both
  versions of the resolver; candidates that fail one after the other do not keep a later
  one from giving the identifier; and an error is returned only when every candidate has
  been tried.
\<close>

lemma try_scripts_v1_skip:
  assumes "(\<exists>err. fst (HTTPClient_Get (''https://api.beatport.com'' @ m) w) = Inl err) \<or>
     (\<exists>r. fst (HTTPClient_Get (''https://api.beatport.com'' @ m) w) = Inr r \<and>
          snd (io_ReadAll (Body r)) \<noteq> None)"
  shows "try_scripts_v1 (m # ms) c w =
     try_scripts_v1 ms c (snd (HTTPClient_Get (''https://api.beatport.com'' @ m) w))"
  using assms
  by (subst try_scripts_v1.simps(2)) (auto split: prod.splits sum.splits option.splits)

lemma try_scripts_skips_failed_fetch:
  "(url_Parse w (script_url c w m) \<noteq> None \<and> fetch_fails m c w \<longrightarrow>
      try_scripts (m # ms) c w = try_scripts ms c (snd (doRequest (script_request c w m) w)))
   \<and> ((\<forall>x \<in> set (pre @ [m]). url_Parse w (script_url c w x) \<noteq> None) \<and>
       all_fail pre c w = Some w1 \<and> probe m c w1 = (Some g, w2) \<longrightarrow>
         try_scripts (pre @ m # post) c w = (Inr (), c\<lparr>ClientID := g\<rparr>, w2))
   \<and> ((\<forall>x \<in> set ms. url_Parse w (script_url c w x) \<noteq> None) \<and>
       fst (try_scripts ms c w) = Inl e \<longrightarrow>
         e = ClientIDNotFound \<and> skipped ms c w = Some (snd (snd (try_scripts ms c w))))
   \<and> ((\<exists>err. fst (HTTPClient_Get (''https://api.beatport.com'' @ m) w) = Inl err) \<or>
       (\<exists>r. fst (HTTPClient_Get (''https://api.beatport.com'' @ m) w) = Inr r \<and>
            snd (io_ReadAll (Body r)) \<noteq> None) \<longrightarrow>
         try_scripts_v1 (m # ms) c w =
           try_scripts_v1 ms c (snd (HTTPClient_Get (''https://api.beatport.com'' @ m) w)))"
proof (intro conjI; rule impI)
  assume a: "url_Parse w (script_url c w m) \<noteq> None \<and> fetch_fails m c w"
  then show "try_scripts (m # ms) c w = try_scripts ms c (snd (doRequest (script_request c w m) w))"
    by (simp add: try_scripts_step fetch_fails_probe)
next
  assume a: "(\<forall>x \<in> set (pre @ [m]). url_Parse w (script_url c w x) \<noteq> None) \<and>
       all_fail pre c w = Some w1 \<and> probe m c w1 = (Some g, w2)"
  then have "skipped pre c w = Some w1" using all_fail_skipped by blast
  with a show "try_scripts (pre @ m # post) c w = (Inr (), c\<lparr>ClientID := g\<rparr>, w2)"
    using try_scripts_found [of pre m w c w1 g w2 post] by blast
next
  assume a: "(\<forall>x \<in> set ms. url_Parse w (script_url c w x) \<noteq> None) \<and>
       fst (try_scripts ms c w) = Inl e"
  then show "e = ClientIDNotFound \<and> skipped ms c w = Some (snd (snd (try_scripts ms c w)))"
    using try_scripts_error_means_all_tried [of ms w c e] by blast
next
  assume "(\<exists>err. fst (HTTPClient_Get (''https://api.beatport.com'' @ m) w) = Inl err) \<or>
       (\<exists>r. fst (HTTPClient_Get (''https://api.beatport.com'' @ m) w) = Inr r \<and>
            snd (io_ReadAll (Body r)) \<noteq> None)"
  then show "try_scripts_v1 (m # ms) c w =
           try_scripts_v1 ms c (snd (HTTPClient_Get (''https://api.beatport.com'' @ m) w))"
    by (rule try_scripts_v1_skip)
qed

lemma always_failing:
  assumes "\<And>k. net w k req = Inl msg"
  shows "checked (doRequest req w) = (Inl (TransportError msg), snd (doRequest req w))"
    and "trace (snd (doRequest req w)) =
      trace w @ [Sent req, Slept 2, Sent req, Slept 4, Sent req, Slept 8, Sent req]"
    and "net (snd (doRequest req w)) k = net w (Suc (Suc (Suc (Suc k))))"
proof -
  have r: "retryable (net w k req)" for k by (simp add: assms retryable_def)
  show "checked (doRequest req w) = (Inl (TransportError msg), snd (doRequest req w))"
    by (cases "doRequest req w")
       (use r doRequest_result [of req w] in \<open>simp add: assms surfaced_def checked_def\<close>)
  show "trace (snd (doRequest req w)) =
      trace w @ [Sent req, Slept 2, Sent req, Slept 4, Sent req, Slept 8, Sent req]"
    by (simp add: doRequest_trace r)
  show "net (snd (doRequest req w)) k = net w (Suc (Suc (Suc (Suc k))))"
    by (simp add: doRequest_unfolded Let_def r)
qed

lemma two_script_page_resolves:
  "fst (FetchClientID docs_client two_script_world) = Inr ()
   \<and> ClientID (fst (snd (FetchClientID docs_client two_script_world))) = ''abc123''
   \<and> trace (snd (snd (FetchClientID docs_client two_script_world))) =
       [Sent (docs_request docs_client),
        Sent vendor_js_request, Slept 2, Sent vendor_js_request, Slept 4, Sent vendor_js_request,
        Slept 8, Sent vendor_js_request,
        Sent main_js_request]"
proof -
  let ?d = "docs_request docs_client"
  let ?v = "''/static/btprt/vendor.js''"
  let ?m = "''/static/btprt/main.js''"
  let ?w = two_script_world
  let ?A = "attempt_world 0 ?d ?w"
  let ?B = "snd (doRequest vendor_js_request ?A)"
  let ?C = "attempt_world 0 main_js_request ?B"
  have du: "URL ?d = ''http://docs.test/docs/''"
    by (simp add: docs_request_def docs_client_def)
  have up: "url_Parse ?w = example_url_Parse" "trace ?w = []"
    by (simp_all add: two_script_world_def quiet_world_def)
  have up0: "url_Parse ?A = example_url_Parse" by (rule example_attempt_world [OF up(1)])
  have up1: "url_Parse ?B = example_url_Parse" by (simp add: doRequest_frame up0)
  have n: "net ?w k r = answer_docs two_script_page main_js k r" for k r
    by (simp add: two_script_world_def quiet_world_def)
  have n0: "net ?w 0 ?d = Inr (ok_response two_script_page)"
    by (simp add: n answer_docs_def du)
  have c0: "checked (doRequest ?d ?w) = (Inr (ok_response two_script_page), ?A)"
    by (rule first_answer_returned [OF n0]) (simp add: ok_response_def)
  have pg: "FetchClientID docs_client ?w = try_scripts [?v, ?m] docs_client ?A"
    using FetchClientID_after_page [OF example_script_requests(3) [OF up(1)] c0]
    by (simp add: ok_response_def two_script_page_matches)
  have srv: "script_request docs_client ?A ?v = vendor_js_request"
    by (rule example_script_requests(2) [OF up0])
  have srm: "script_request docs_client ?B ?m = main_js_request"
    by (rule example_script_requests(1) [OF up1])
  have nv: "net ?A k vendor_js_request = Inl ''connection refused''" for k
    by (simp add: n answer_docs_def vendor_js_request_def)
  note f = always_failing [of ?A vendor_js_request, OF nv]
  have ff: "fetch_fails ?v docs_client ?A"
    by (simp add: fetch_fails_def srv f(1))
  have af: "all_fail [?v] docs_client ?A = Some ?B"
    by (simp add: ff srv)
  have n1: "net ?B 0 (script_request docs_client ?B ?m) = Inr (ok_response main_js)"
    by (simp add: srm f(3)) (simp add: n answer_docs_def main_js_request_def)
  have pr: "probe ?m docs_client ?B = (Some ''abc123'', ?C)"
    using probe_answered [OF n1] by (simp add: srm main_js_client_id)
  have ok: "\<forall>x \<in> set ([?v] @ [?m]). url_Parse ?A (script_url docs_client ?A x) \<noteq> None"
    using example_script_requests(3) [OF up0] by simp
  have "try_scripts ([?v] @ ?m # []) docs_client ?A =
      (Inr (), docs_client\<lparr>ClientID := ''abc123''\<rparr>, ?C)"
    using try_scripts_skips_failed_fetch
      [where c = docs_client and w = "?A" and pre = "[?v]" and m = ?m and post = "[]"
         and ?w1.0 = "?B" and g = "''abc123''" and ?w2.0 = "?C"]
      ok af pr
    by blast
  then show ?thesis
    by (simp add: pg f(2) up(2))
qed


lemma escape_page_matches:
  "reScript_matches escape_page = [''/static/btprt/%zz.js'', ''/static/btprt/main.js'']"
  by code_simp

lemma main_js_client_id_v1: "reClientID_v1_first main_js = Some ''abc123''"
  by code_simp
text \<open>
  Claim C10. The resolver is to skip a candidate whose fetch fails and go on with the next.
  The refactored \<open>FetchClientID\<close> drops the error of \<^verbatim>\<open>http.NewRequest\<close> in the loop, so
  a candidate whose URL does not parse leaves a nil request, which \<open>doRequest\<close> hands to
  \<^verbatim>\<open>HTTPClient.Do\<close>: the run panics at that candidate. On the page of \<open>escape_page\<close>
  the first candidate is such a one and the second holds the identifier: the refactored
  resolver ends in the nil dereference, although the second candidate alone resolves, and
  the earlier resolver, whose \<^verbatim>\<open>HTTPClient.Get\<close> returns the error, skips the first
  candidate and finds \<^verbatim>\<open>abc123\<close>.
\<close>

theorem unparsable_candidate_stops_FetchClientID:
  "reScript_matches escape_page = [''/static/btprt/%zz.js'', ''/static/btprt/main.js'']
   \<and> http_NewRequest ''GET'' (script_url NewClient escape_world ''/static/btprt/%zz.js'') []
         escape_world = Inl (URLError ''https://api.beatport.com/static/btprt/%zz.js'')
   \<and> fst (FetchClientID NewClient escape_world) = Inl NilDereference
   \<and> fst (try_scripts [''/static/btprt/main.js''] NewClient escape_world) = Inr ()
   \<and> fst (FetchClientID_v1 NewClient escape_world) = Inr ()
   \<and> ClientID (fst (snd (FetchClientID_v1 NewClient escape_world))) = ''abc123''"
  by code_simp

section \<open>SaveToken and LoadToken: the round trip\<close>

subsection \<open>A string literal is read back\<close>

lemma utf8_len_le: "utf8_len s \<le> length s"
  by (cases s) (auto simp: utf8_len_def)


lemma hex_value_hex_char_all: "\<forall>d \<in> set [0..<16]. hex_value (hex_char d) = Some d"
  by (simp add: upt_rec hex_value_def hex_char_def byte_def)

lemma hex_value_hex_char: "d < 16 \<Longrightarrow> hex_value (hex_char d) = Some d"
  using hex_value_hex_char_all by simp

lemma hex_value_0: "hex_value (CHR ''0'') = Some 0"
  by (simp add: hex_value_def byte_def)

lemma byte_lt_256: "byte c < 256"
  by (simp add: byte_def)

lemma chr_byte [simp]: "chr (byte c) = c"
  by (simp add: chr_def byte_def)

lemma byte_DQ [simp]: "byte DQ = 34" and byte_BSL [simp]: "byte BSL = 92"
  by (simp_all add: byte_def)

lemma unquote_DQ: "unquote (DQ # cs) = Some ([], cs)"
  by (subst unquote.simps) simp

lemma unquote_esc:
  "simple_escape e = Some x \<Longrightarrow> e \<noteq> CHR ''u'' \<Longrightarrow> unquote (BSL # e # es) = emit [x] (unquote es)"
  by (subst unquote.simps) simp

lemma unquote_u:
  "hex4 es = Some rr \<Longrightarrow> rr < 0xD800 \<or> 0xE000 \<le> rr \<Longrightarrow>
   unquote (BSL # CHR ''u'' # es) = emit (EncodeRune rr) (unquote (drop 4 es))"
  by (subst unquote.simps) auto

lemma unquote_ascii:
  "c \<noteq> DQ \<Longrightarrow> c \<noteq> BSL \<Longrightarrow> 0x20 \<le> byte c \<Longrightarrow> byte c < 0x80 \<Longrightarrow>
   unquote (c # cs) = emit [c] (unquote cs)"
  by (subst unquote.simps) simp

lemma high_not_special: "0x80 \<le> byte c \<Longrightarrow> c \<noteq> DQ \<and> c \<noteq> BSL"
  by (auto simp: byte_def)

lemma unquote_utf8:
  "0x80 \<le> byte c \<Longrightarrow> utf8_len (c # cs) \<noteq> 0 \<Longrightarrow>
   unquote (c # cs) = emit (take (utf8_len (c # cs)) (c # cs))
                        (unquote (drop (utf8_len (c # cs)) (c # cs)))"
  using high_not_special [of c] by (subst unquote.simps) simp

lemma unquote_bad:
  "0x80 \<le> byte c \<Longrightarrow> utf8_len (c # cs) = 0 \<Longrightarrow>
   unquote (c # cs) = emit replacement (unquote cs)"
  using high_not_special [of c] by (subst unquote.simps) simp

lemma hex4_byte:
  "b < 256 \<Longrightarrow>
   hex4 (CHR ''0'' # CHR ''0'' # hex_char (b div 16) # hex_char (b mod 16) # rest) = Some b"
  by (simp add: hex4_def hex_value_hex_char hex_value_0 less_mult_imp_div_less)

lemma unquote_u00:
  assumes "byte c < 0x80"
  shows "unquote ([BSL, CHR ''u'', CHR ''0'', CHR ''0'', hex_char (byte c div 16),
                   hex_char (byte c mod 16)] @ rest) = emit [c] (unquote rest)"
proof -
  have "hex4 (CHR ''0'' # CHR ''0'' # hex_char (byte c div 16) # hex_char (byte c mod 16) # rest)
          = Some (byte c)"
    using assms by (intro hex4_byte) simp
  from unquote_u [OF this] assms show ?thesis
    by (simp add: EncodeRune_def)
qed

lemma short_escape_inverse:
  "short_escape c = Some e \<Longrightarrow> simple_escape e = Some c \<and> e \<noteq> CHR ''u''"
  unfolding short_escape_def simple_escape_def
  by (auto split: if_split_asm)

lemma short_escape_None:
  "short_escape c = None \<Longrightarrow> c \<noteq> DQ \<and> c \<noteq> BSL"
  unfolding short_escape_def by (simp split: if_split_asm)

lemma unquote_escape_ascii:
  assumes "byte c < 0x80"
  shows "unquote (escape_ascii c @ rest) = emit [c] (unquote rest)"
proof (cases "short_escape c")
  case (Some e)
  from short_escape_inverse [OF this] show ?thesis
    by (simp add: escape_ascii_def Some unquote_esc)
next
  case None
  note ns = short_escape_None [OF None]
  show ?thesis
  proof (cases "byte c < 0x20 \<or> html_unsafe c")
    case True
    then show ?thesis
      using unquote_u00 [OF assms, of rest] by (simp add: escape_ascii_def None)
  next
    case False
    then show ?thesis
      using ns assms by (simp add: escape_ascii_def None unquote_ascii)
  qed
qed

lemma lead_size_cases: "lead_size c \<in> {0, 1, 2, 3, 4}"
  by (simp add: lead_size_def Let_def)

lemma lead_size_ascii: "lead_size c = 1 \<longleftrightarrow> byte c < 0x80"
  by (simp add: lead_size_def Let_def)

lemma utf8_len_ascii: "byte c < 0x80 \<Longrightarrow> utf8_len (c # cs) = 1"
  by (simp add: utf8_len_def lead_size_ascii [symmetric])

lemma utf8_len_lead: "utf8_len (c # cs) \<noteq> 0 \<Longrightarrow> utf8_len (c # cs) = lead_size c"
  by (auto simp: utf8_len_def split: if_split_asm)

lemma utf8_len_prefix:
  assumes "utf8_len s \<noteq> 0"
  shows "utf8_len (take (utf8_len s) s @ r) = utf8_len s"
proof (cases s)
  case Nil
  with assms show ?thesis by (simp add: utf8_len_def)
next
  case (Cons c cs)
  let ?n = "lead_size c"
  have n: "utf8_len s = ?n" using assms Cons utf8_len_lead by simp
  show ?thesis
  proof (cases "?n \<le> 1")
    case True
    with n assms have "?n = 1" by simp
    then show ?thesis using Cons n by (simp add: utf8_len_def)
  next
    case False
    then have len: "?n - 1 \<le> length cs" and acc: "accepts c (hd cs)"
      and co: "list_all cont (take (?n - 2) (tl cs))"
      using assms Cons by (auto simp: utf8_len_def split: if_split_asm)
    from False len have ne: "cs \<noteq> []" by auto
    then obtain d ds where cs: "cs = d # ds" by (cases cs) auto
    from False obtain m where m: "?n = Suc (Suc m)" by (cases ?n; cases "?n - 1") auto
    have "take ?n s @ r = c # d # (take m ds @ r)"
      using Cons cs m by simp
    moreover have "m \<le> length ds" using len cs m by simp
    ultimately show ?thesis
      using n m acc co cs by (simp add: utf8_len_def)
  qed
qed

lemma ValidString_drop:
  "ValidString s \<Longrightarrow> s \<noteq> [] \<Longrightarrow> utf8_len s \<noteq> 0 \<and> ValidString (drop (utf8_len s) s)"
  by (cases s) (auto simp: ValidString.simps(2) split: if_split_asm)

lemma hex4_2028: "hex4 (''2028'' @ r) = Some 0x2028" and hex4_2029: "hex4 (''2029'' @ r) = Some 0x2029"
  by (simp_all add: hex4_def hex_value_def byte_def)

lemma EncodeRune_2028: "EncodeRune 0x2028 = line_sep" and EncodeRune_2029: "EncodeRune 0x2029 = para_sep"
  by (simp_all add: EncodeRune_def line_sep_def para_sep_def chr_def char_of_eq_iff)

lemma utf8_len_sep:
  "take 3 s = line_sep \<or> take 3 s = para_sep \<Longrightarrow> utf8_len s = 3"
proof -
  assume a: "take 3 s = line_sep \<or> take 3 s = para_sep"
  then obtain x r where s: "s = CHR 0xE2 # CHR 0x80 # x # r" and x: "x = CHR 0xA8 \<or> x = CHR 0xA9"
    by (cases s; cases "tl s"; cases "tl (tl s)") (auto simp: line_sep_def para_sep_def)
  have "lead_size (CHR 0xE2) = 3" by (simp add: lead_size_def byte_def)
  moreover have "accepts (CHR 0xE2) (CHR 0x80)" by (simp add: accepts_def byte_def)
  moreover have "cont x" using x by (auto simp: cont_def byte_def)
  ultimately show ?thesis by (simp add: s utf8_len_def)
qed

lemma take_append_drop: "take n s = p \<Longrightarrow> p @ drop n s = s"
  by auto

lemma unquote_quote_body:
  "ValidString s \<Longrightarrow> unquote (quote_body s @ DQ # rest) = Some (s, rest)"
proof (induction s rule: quote_body.induct)
  case 1
  show ?case by (simp add: quote_body.simps unquote_DQ)
next
  case (2 c cs)
  let ?s = "c # cs"
  from ValidString_drop [OF "2.prems"] have n0: "utf8_len ?s \<noteq> 0"
    and v: "ValidString (drop (utf8_len ?s) ?s)" by simp_all
  show ?case
  proof (cases "byte c < 0x80")
    case True
    then have "utf8_len ?s = 1" by (rule utf8_len_ascii)
    with v have "ValidString cs" by simp
    with "2.IH"(1) True have "unquote (quote_body cs @ DQ # rest) = Some (cs, rest)" by simp
    then show ?thesis
      using True by (simp add: quote_body.simps unquote_escape_ascii emit_def)
  next
    case False
    then have hi: "0x80 \<le> byte c" by simp
    consider (ls) "take 3 ?s = line_sep" | (ps) "take 3 ?s \<noteq> line_sep" "take 3 ?s = para_sep"
      | (raw) "take 3 ?s \<noteq> line_sep" "take 3 ?s \<noteq> para_sep" by blast
    then show ?thesis
    proof cases
      case ls
      then have l3: "utf8_len ?s = 3" using utf8_len_sep by blast
      with v have "ValidString (drop 3 ?s)" by simp
      with "2.IH"(3) False n0 ls
      have ih: "unquote (quote_body (drop 3 ?s) @ DQ # rest) = Some (drop 3 ?s, rest)" by simp
      have "quote_body ?s = BSL # ''u2028'' @ quote_body (drop 3 ?s)"
        using False n0 ls by (subst quote_body.simps) simp
      moreover have "unquote (BSL # CHR ''u'' # ''2028'' @ quote_body (drop 3 ?s) @ DQ # rest)
          = emit line_sep (unquote (quote_body (drop 3 ?s) @ DQ # rest))"
        using unquote_u [OF hex4_2028, of "quote_body (drop 3 ?s) @ DQ # rest"]
        by (simp add: EncodeRune_2028)
      moreover have "line_sep @ drop 3 ?s = ?s"
        by (rule take_append_drop [OF ls])
      ultimately show ?thesis using ih by (simp add: emit_def)
    next
      case ps
      then have l3: "utf8_len ?s = 3" using utf8_len_sep by blast
      with v have "ValidString (drop 3 ?s)" by simp
      with "2.IH"(4) False n0 ps
      have ih: "unquote (quote_body (drop 3 ?s) @ DQ # rest) = Some (drop 3 ?s, rest)" by simp
      have "quote_body ?s = BSL # ''u2029'' @ quote_body (drop 3 ?s)"
        using False n0 ps by (subst quote_body.simps) simp
      moreover have "unquote (BSL # CHR ''u'' # ''2029'' @ quote_body (drop 3 ?s) @ DQ # rest)
          = emit para_sep (unquote (quote_body (drop 3 ?s) @ DQ # rest))"
        using unquote_u [OF hex4_2029, of "quote_body (drop 3 ?s) @ DQ # rest"]
        by (simp add: EncodeRune_2029)
      moreover have "para_sep @ drop 3 ?s = ?s"
        by (rule take_append_drop [OF ps(2)])
      ultimately show ?thesis using ih by (simp add: emit_def)
    next
      case raw
      let ?n = "utf8_len ?s"
      let ?R = "quote_body (drop ?n ?s) @ DQ # rest"
      from "2.IH"(5) False n0 raw v
      have ih: "unquote ?R = Some (drop ?n ?s, rest)" by simp
      have q: "quote_body ?s = take ?n ?s @ quote_body (drop ?n ?s)"
        using False n0 raw by (subst quote_body.simps) simp
      have le: "?n \<le> length ?s" by (rule utf8_len_le)
      obtain t where t: "take ?n ?s = c # t"
        using n0 by (cases ?n) auto
      have pre: "utf8_len (c # t @ ?R) = ?n"
        using utf8_len_prefix [OF n0, of ?R] t by simp
      have "unquote (c # t @ ?R) = emit (take ?n (c # t @ ?R)) (unquote (drop ?n (c # t @ ?R)))"
        using unquote_utf8 [OF hi, of "t @ ?R"] pre n0 by simp
      moreover have "take ?n (c # t @ ?R) = take ?n ?s" and "drop ?n (c # t @ ?R) = ?R"
        using t le by (metis append_Cons append_eq_conv_conj length_take min.absorb2)+
      ultimately have "unquote (take ?n ?s @ ?R) = emit (take ?n ?s) (unquote ?R)"
        using t by simp
      then show ?thesis using q ih by (simp add: emit_def)
    qed
  qed
qed


subsection \<open>A number is read back\<close>

lemma byte_digit_char: "d < 10 \<Longrightarrow> byte (digit_char d) = 48 + d"
proof -
  have "\<forall>d \<in> set [0..<10]. byte (digit_char d) = 48 + d"
    by (simp add: upt_rec digit_char_def byte_def)
  then show "d < 10 \<Longrightarrow> byte (digit_char d) = 48 + d" by simp
qed

lemma is_digit_digit_char: "d < 10 \<Longrightarrow> is_digit (digit_char d)"
  by (simp add: is_digit_def byte_digit_char)

lemma FormatUint_digits: "list_all is_digit (FormatUint n)"
  by (induction n rule: FormatUint.induct) (subst FormatUint.simps, simp add: is_digit_digit_char)

lemma FormatUint_nonempty: "FormatUint n \<noteq> []"
  by (subst FormatUint.simps) simp

lemma digits_value_append:
  "digits_value acc (xs @ ys) = digits_value (digits_value acc xs) ys"
  by (induction xs arbitrary: acc) simp_all

lemma digits_value_FormatUint: "digits_value 0 (FormatUint n) = n"
proof (induction n rule: FormatUint.induct)
  case (1 n)
  show ?case
  proof (cases "n < 10")
    case True
    then show ?thesis by (subst FormatUint.simps) (simp add: byte_digit_char)
  next
    case False
    with 1 have "digits_value 0 (FormatUint (n div 10)) = n div 10" by simp
    with False show ?thesis
      by (subst FormatUint.simps) (simp add: digits_value_append byte_digit_char)
  qed
qed

lemma hd_FormatUint: "0 < n \<Longrightarrow> hd (FormatUint n) \<noteq> CHR ''0''"
proof (induction n rule: FormatUint.induct)
  case (1 n)
  show ?case
  proof (cases "n < 10")
    case True
    have "byte (hd (FormatUint n)) = 48 + n"
      using True by (subst FormatUint.simps) (simp add: byte_digit_char)
    with "1.prems" show ?thesis by (auto simp: byte_def)
  next
    case False
    then have "0 < n div 10" by simp
    with 1 False have "hd (FormatUint (n div 10)) \<noteq> CHR ''0''" by simp
    with False show ?thesis
      by (subst FormatUint.simps) (simp add: FormatUint_nonempty)
  qed
qed

lemma FormatUint_0: "FormatUint 0 = ''0''"
  by (subst FormatUint.simps) (simp add: digit_char_def)


lemma not_digit_comma: "\<not> is_digit (CHR '','')" "\<not> is_digit (CHR ''}'')" "\<not> is_digit (CHR ''-'')"
  "\<not> is_digit (CHR ''+'')"
  by (simp_all add: is_digit_def byte_def)

lemma takeWhile_digits:
  "list_all is_digit ds \<Longrightarrow> \<not> is_digit x \<Longrightarrow>
   takeWhile is_digit (ds @ x # rest) = ds \<and> dropWhile is_digit (ds @ x # rest) = x # rest"
  by (induction ds) simp_all

lemma scan_int_part_FormatUint:
  assumes "\<not> is_digit x"
  shows "scan_int_part (FormatUint n @ x # rest) = Some (FormatUint n, x # rest)"
proof (cases "n = 0")
  case True
  then show ?thesis by (simp add: FormatUint_0 scan_int_part_def)
next
  case False
  then have h: "hd (FormatUint n) \<noteq> CHR ''0''" using hd_FormatUint by simp
  obtain c cs where f: "FormatUint n = c # cs"
    using FormatUint_nonempty [of n] by (cases "FormatUint n") auto
  from takeWhile_digits [OF FormatUint_digits assms, of n rest] h f
  show ?thesis
    by (auto simp: scan_int_part_def scan_digits_def)
qed

lemma scan_tail:
  "x = CHR '','' \<or> x = CHR ''}'' \<Longrightarrow> scan_frac (x # rest) = Some ([], x # rest)"
  "x = CHR '','' \<or> x = CHR ''}'' \<Longrightarrow> scan_exp (x # rest) = Some ([], x # rest)"
  by (auto simp: scan_frac_def scan_exp_def)

lemma is_digit_hd_FormatUint: "is_digit (hd (FormatUint n))"
  using FormatUint_digits [of n] FormatUint_nonempty [of n] by (cases "FormatUint n") auto

lemma hd_FormatUint_sign: "hd (FormatUint n) \<noteq> CHR ''-''" "hd (FormatUint n) \<noteq> CHR ''+''"
  using is_digit_hd_FormatUint [of n] not_digit_comma by metis+

lemma scan_number_FormatInt:
  assumes "x = CHR '','' \<or> x = CHR ''}''"
  shows "scan_number (FormatInt i @ x # rest) = Some (FormatInt i, x # rest)"
proof -
  from assms have nd: "\<not> is_digit x" using not_digit_comma by auto
  show ?thesis
  proof (cases "i < 0")
    case True
    then show ?thesis
      using scan_int_part_FormatUint [OF nd, of "nat (- i)" rest] assms
      by (simp add: scan_number_def FormatInt_def emit_def scan_tail)
  next
    case False
    then show ?thesis
      using scan_int_part_FormatUint [OF nd, of "nat i" rest] assms
        hd_FormatUint_sign(1) [of "nat i"] FormatUint_nonempty [of "nat i"]
      by (simp add: scan_number_def FormatInt_def emit_def scan_tail)
  qed
qed

lemma ParseInt_FormatInt: "ParseInt (FormatInt (sint (w :: go_int))) = Some w"
proof -
  let ?i = "sint w"
  have lo: "- 9223372036854775808 \<le> ?i" using sint_ge [of w] by simp
  have hi: "?i \<le> 9223372036854775807" using sint_lt [of w] by simp
  show ?thesis
  proof (cases "?i < 0")
    case True
    then show ?thesis
      using lo hi FormatUint_nonempty [of "nat (- ?i)"] FormatUint_digits [of "nat (- ?i)"]
      by (simp add: ParseInt_def FormatInt_def Let_def digits_value_FormatUint)
  next
    case False
    then show ?thesis
      using lo hi FormatUint_nonempty [of "nat ?i"] FormatUint_digits [of "nat ?i"]
        hd_FormatUint_sign [of "nat ?i"]
      by (simp add: ParseInt_def FormatInt_def Let_def digits_value_FormatUint)
  qed
qed


subsection \<open>The text of a token is read back\<close>

lemma skip_ws_nonspace: "\<not> is_space c \<Longrightarrow> skip_ws (c # cs) = c # cs"
  by (simp add: skip_ws_def)

lemma punctuation_nonspace:
  "\<not> is_space DQ" "\<not> is_space (CHR '':'')" "\<not> is_space (CHR '','')" "\<not> is_space (CHR ''}'')"
  "\<not> is_space (CHR ''{'')" "\<not> is_space (CHR ''-'')"
  by (simp_all add: is_space_def)

lemma digit_plain:
  "is_digit c \<Longrightarrow> \<not> is_space c \<and> c \<noteq> CHR ''{'' \<and> c \<noteq> CHR ''['' \<and> c \<noteq> DQ"
  by (auto simp: is_digit_def is_space_def byte_def)

lemma parse_value_literal:
  assumes "unquote (q @ DQ # rest) = Some (x, rest)"
  shows "parse_value (Suc n) (DQ # q @ DQ # rest) = Some (JString x, rest)"
  using assms by (simp add: skip_ws_nonspace punctuation_nonspace)

lemma FormatInt_head:
  "\<exists>c cs. FormatInt i = c # cs \<and> (c = CHR ''-'' \<or> is_digit c)"
proof (cases "i < 0")
  case True
  then show ?thesis by (simp add: FormatInt_def)
next
  case False
  obtain c cs where f: "FormatUint (nat i) = c # cs"
    using FormatUint_nonempty [of "nat i"] by (cases "FormatUint (nat i)") auto
  with is_digit_hd_FormatUint [of "nat i"] False show ?thesis
    by (simp add: FormatInt_def)
qed

lemma parse_value_FormatInt:
  assumes "x = CHR '','' \<or> x = CHR ''}''"
  shows "parse_value (Suc n) (FormatInt i @ x # rest) = Some (JNumber (FormatInt i), x # rest)"
proof -
  obtain c cs where f: "FormatInt i = c # cs" and c: "c = CHR ''-'' \<or> is_digit c"
    using FormatInt_head by blast
  from c have p: "\<not> is_space c \<and> c \<noteq> CHR ''{'' \<and> c \<noteq> CHR ''['' \<and> c \<noteq> DQ"
    using digit_plain [of c] by (auto simp: is_space_def)
  have "scan_number (c # cs @ x # rest) = Some (c # cs, x # rest)"
    using scan_number_FormatInt [OF assms, of i rest] f by simp
  with p c show ?thesis
    by (simp add: f skip_ws_nonspace)
qed

lemma parse_members_more:
  assumes "unquote ks = Some (k, CHR '':'' # es)"
    and "parse_value n es = Some (v, CHR '','' # ds)"
    and "parse_members n ds = Some (ms, r)"
  shows "parse_members (Suc n) (DQ # ks) = Some ((k, v) # ms, r)"
  using assms by (simp add: skip_ws_nonspace punctuation_nonspace)

lemma parse_members_last:
  assumes "unquote ks = Some (k, CHR '':'' # es)"
    and "parse_value n es = Some (v, CHR ''}'' # ds)"
  shows "parse_members (Suc n) (DQ # ks) = Some ([(k, v)], ds)"
  using assms by (simp add: skip_ws_nonspace punctuation_nonspace)

lemma parse_value_object:
  assumes "parse_members n (DQ # ks) = Some (ms, r)"
  shows "parse_value (Suc n) (CHR ''{'' # DQ # ks) = Some (JObject ms, r)"
  using assms by (simp add: skip_ws_nonspace punctuation_nonspace)

lemma unquote_plain:
  "ValidString k \<Longrightarrow> quote_body k = k \<Longrightarrow> unquote (k @ DQ # rest) = Some (k, rest)"
  using unquote_quote_body [of k rest] by simp

lemma token_tags_plain:
  "ValidString ''access_token'' \<and> quote_body ''access_token'' = ''access_token''"
  "ValidString ''expires_in'' \<and> quote_body ''expires_in'' = ''expires_in''"
  "ValidString ''refresh_token'' \<and> quote_body ''refresh_token'' = ''refresh_token''"
  "ValidString ''token_type'' \<and> quote_body ''token_type'' = ''token_type''"
  "ValidString ''scope'' \<and> quote_body ''scope'' = ''scope''"
  by code_simp+

lemma unquote_token_tags:
  "unquote (''access_token'' @ DQ # rest) = Some (''access_token'', rest)"
  "unquote (''expires_in'' @ DQ # rest) = Some (''expires_in'', rest)"
  "unquote (''refresh_token'' @ DQ # rest) = Some (''refresh_token'', rest)"
  "unquote (''token_type'' @ DQ # rest) = Some (''token_type'', rest)"
  "unquote (''scope'' @ DQ # rest) = Some (''scope'', rest)"
  using token_tags_plain by (blast intro: unquote_plain)+


lemma parse_Marshal_OAuthToken:
  assumes va: "\<And>r. unquote (quote_body (AccessToken t) @ DQ # r) = Some (AccessToken t', r)"
    and vr: "\<And>r. unquote (quote_body (RefreshToken t) @ DQ # r) = Some (RefreshToken t', r)"
    and vt: "\<And>r. unquote (quote_body (TokenType t) @ DQ # r) = Some (TokenType t', r)"
    and vs: "\<And>r. unquote (quote_body (Scope t) @ DQ # r) = Some (Scope t', r)"
    and e: "ExpiresIn t' = ExpiresIn t"
  shows "parse_value (Suc (Suc (Suc (Suc (Suc (Suc (Suc k))))))) (Marshal_OAuthToken t @ rest) =
     Some (token_tree t', rest)"
proof -
  let ?t5 = "''scope'' @ DQ # CHR '':'' # DQ # quote_body (Scope t) @ DQ # CHR ''}'' # rest"
  let ?t4 = "''token_type'' @ DQ # CHR '':'' # DQ # quote_body (TokenType t) @ DQ # CHR '','' # DQ # ?t5"
  let ?t3 = "''refresh_token'' @ DQ # CHR '':'' # DQ # quote_body (RefreshToken t) @ DQ # CHR '','' # DQ # ?t4"
  let ?t2 = "''expires_in'' @ DQ # CHR '':'' # FormatInt (sint (ExpiresIn t)) @ CHR '','' # DQ # ?t3"
  let ?t1 = "''access_token'' @ DQ # CHR '':'' # DQ # quote_body (AccessToken t) @ DQ # CHR '','' # DQ # ?t2"
  have m5: "parse_members (Suc (Suc k)) (DQ # ?t5) = Some ([(''scope'', JString (Scope t'))], rest)"
    by (rule parse_members_last [OF unquote_token_tags(5) parse_value_literal [OF vs]])
  have m4: "parse_members (Suc (Suc (Suc k))) (DQ # ?t4) =
      Some ([(''token_type'', JString (TokenType t')), (''scope'', JString (Scope t'))], rest)"
    by (rule parse_members_more [OF unquote_token_tags(4) parse_value_literal [OF vt] m5])
  have m3: "parse_members (Suc (Suc (Suc (Suc k)))) (DQ # ?t3) =
      Some ([(''refresh_token'', JString (RefreshToken t')),
             (''token_type'', JString (TokenType t')), (''scope'', JString (Scope t'))], rest)"
    by (rule parse_members_more [OF unquote_token_tags(3) parse_value_literal [OF vr] m4])
  have m2: "parse_members (Suc (Suc (Suc (Suc (Suc k))))) (DQ # ?t2) =
      Some ([(''expires_in'', JNumber (FormatInt (sint (ExpiresIn t)))),
             (''refresh_token'', JString (RefreshToken t')),
             (''token_type'', JString (TokenType t')), (''scope'', JString (Scope t'))], rest)"
    by (rule parse_members_more [OF unquote_token_tags(2) parse_value_FormatInt m3]) simp
  have m1: "parse_members (Suc (Suc (Suc (Suc (Suc (Suc k)))))) (DQ # ?t1) =
      Some ([(''access_token'', JString (AccessToken t')),
             (''expires_in'', JNumber (FormatInt (sint (ExpiresIn t)))),
             (''refresh_token'', JString (RefreshToken t')),
             (''token_type'', JString (TokenType t')), (''scope'', JString (Scope t'))], rest)"
    by (rule parse_members_more [OF unquote_token_tags(1) parse_value_literal [OF va] m2])
  have "Marshal_OAuthToken t @ rest = CHR ''{'' # DQ # ?t1"
    by (simp add: Marshal_OAuthToken_def quote_def)
  with parse_value_object [OF m1] show ?thesis
    by (simp only: token_tree_def e)
qed

lemma into_struct_token_tree:
  "into_struct store_OAuthToken (token_tree t) zero_OAuthToken = Inr t"
  by (simp add: token_tree_def into_struct_def store_OAuthToken_def foldName_token_tags
      store_field_def into_string_def into_int_def ParseInt_FormatInt zero_OAuthToken_def)

lemma length_Marshal_OAuthToken: "3 \<le> length (Marshal_OAuthToken t)"
  by (simp add: Marshal_OAuthToken_def)

lemma json_Decode_Encode_OAuthToken:
  assumes "\<And>r. unquote (quote_body (AccessToken t) @ DQ # r) = Some (AccessToken t', r)"
    and "\<And>r. unquote (quote_body (RefreshToken t) @ DQ # r) = Some (RefreshToken t', r)"
    and "\<And>r. unquote (quote_body (TokenType t) @ DQ # r) = Some (TokenType t', r)"
    and "\<And>r. unquote (quote_body (Scope t) @ DQ # r) = Some (Scope t', r)"
    and "ExpiresIn t' = ExpiresIn t"
  shows "json_Decode (Encode_OAuthToken t) = Inr (token_tree t')"
proof -
  let ?s = "Encode_OAuthToken t"
  have "6 \<le> 2 * length ?s" using length_Marshal_OAuthToken [of t] by (simp add: Encode_OAuthToken_def)
  then have k: "2 * length ?s + 1 = Suc (Suc (Suc (Suc (Suc (Suc (Suc (2 * length ?s - 6)))))))"
    by arith
  have ne: "skip_ws ?s \<noteq> []"
    by (simp add: Encode_OAuthToken_def Marshal_OAuthToken_def skip_ws_nonspace punctuation_nonspace)
  have "parse_value (Suc (Suc (Suc (Suc (Suc (Suc (Suc (2 * length ?s - 6)))))))) ?s =
      Some (token_tree t', [NL])"
    unfolding Encode_OAuthToken_def by (rule parse_Marshal_OAuthToken [OF assms])
  then have "parse_value (2 * length ?s + 1) ?s = Some (token_tree t', [NL])"
    by (simp only: k)
  moreover have "depth (token_tree t') = Suc 0" by (simp add: token_tree_def)
  ultimately show ?thesis using ne by (simp add: json_Decode_def)
qed

lemma LoadToken_Encode_OAuthToken:
  assumes "\<And>r. unquote (quote_body (AccessToken t) @ DQ # r) = Some (AccessToken t', r)"
    and "\<And>r. unquote (quote_body (RefreshToken t) @ DQ # r) = Some (RefreshToken t', r)"
    and "\<And>r. unquote (quote_body (TokenType t) @ DQ # r) = Some (TokenType t', r)"
    and "\<And>r. unquote (quote_body (Scope t) @ DQ # r) = Some (Scope t', r)"
    and "ExpiresIn t' = ExpiresIn t"
    and "token_file w = Contents (Encode_OAuthToken t)"
  shows "LoadToken c w = (Inr (), c\<lparr>Token := Some t'\<rparr>)"
  using assms(6)
  by (simp add: LoadToken_def json_Decode_Encode_OAuthToken [OF assms(1-5)] into_struct_token_tree)

lemma hex4_fffd: "hex4 (''fffd'' @ r) = Some 0xFFFD"
  by (simp add: hex4_def hex_value_def byte_def)

lemma EncodeRune_fffd: "EncodeRune 0xFFFD = replacement"
  by (simp add: EncodeRune_def replacement_def chr_def char_of_eq_iff)

lemma unquote_fffd: "unquote (BSL # ''ufffd'' @ DQ # rest) = Some (replacement, rest)"
  using unquote_u [OF hex4_fffd, of "DQ # rest"]
  by (simp add: EncodeRune_fffd unquote_DQ emit_def)

lemma quote_body_ff: "quote_body [CHR 0xFF] = BSL # ''ufffd''"
  by code_simp

lemma unquote_quote_body_ff:
  "unquote (quote_body [CHR 0xFF] @ DQ # rest) = Some (replacement, rest)"
  using unquote_fffd by (simp add: quote_body_ff)

lemma unquote_quote_body_empty: "unquote (quote_body [] @ DQ # rest) = Some ([], rest)"
  by (simp add: unquote_quote_body)

lemma Encode_token_ff: "Encode_OAuthToken token_ff = token_ff_file @ [NL]"
  by (simp add: Encode_OAuthToken_def Marshal_OAuthToken_def token_ff_def token_ff_file_def
      quote_def quote_body_ff quote_body.simps(1) FormatInt_def FormatUint_0)

lemma valid_strings_token_abc: "valid_strings token_abc"
  unfolding valid_strings_def token_abc_def by simp code_simp

text \<open>
  Claim C8, for the tokens that JSON carries. For every token whose access token, refresh
  token, token type and scope are well-formed UTF-8 and every expiry: when \<open>SaveToken\<close>
  succeeds, the file holds the encoding of the token, and \<open>LoadToken\<close> on the world it
  leaves succeeds, for every client, with the client's token equal to the one saved, hence
  equal in each of the five fields.
\<close>

theorem saved_token_loads_back:
  "valid_strings t \<and> Token c = Some t \<and> SaveToken c w = (Inr (), w') \<longrightarrow>
     token_file w' = Contents (Encode_OAuthToken t) \<and>
     LoadToken c' w' = (Inr (), c'\<lparr>Token := Some t\<rparr>)"
proof
  assume a: "valid_strings t \<and> Token c = Some t \<and> SaveToken c w = (Inr (), w')"
  then have f: "token_file w' = Contents (Encode_OAuthToken t)"
    by (auto simp: SaveToken_def split: if_split_asm)
  from a have v: "ValidString (AccessToken t)" "ValidString (RefreshToken t)"
    "ValidString (TokenType t)" "ValidString (Scope t)"
    by (simp_all add: valid_strings_def)
  from LoadToken_Encode_OAuthToken [OF v [THEN unquote_quote_body] refl f] f
  show "token_file w' = Contents (Encode_OAuthToken t) \<and>
     LoadToken c' w' = (Inr (), c'\<lparr>Token := Some t\<rparr>)"
    by simp
qed

theorem saved_token_loads_back_witness:
  "valid_strings token_abc \<and> Token client_abc = Some token_abc \<and>
   SaveToken client_abc blank_world =
     (Inr (), blank_world\<lparr>token_file := Contents (Encode_OAuthToken token_abc)\<rparr>) \<and>
   LoadToken NewClient (blank_world\<lparr>token_file := Contents (Encode_OAuthToken token_abc)\<rparr>) =
     (Inr (), client_abc)"
proof -
  have s: "SaveToken client_abc blank_world =
     (Inr (), blank_world\<lparr>token_file := Contents (Encode_OAuthToken token_abc)\<rparr>)"
    by (simp add: SaveToken_def client_abc_def blank_world_def quiet_world_def)
  have t: "Token client_abc = Some token_abc" by (simp add: client_abc_def)
  from saved_token_loads_back
    [where t = token_abc and c = client_abc and w = blank_world and c' = NewClient
       and w' = "blank_world\<lparr>token_file := Contents (Encode_OAuthToken token_abc)\<rparr>"]
    valid_strings_token_abc s t
  show ?thesis by (simp add: client_abc_def)
qed

text \<open>
  Claim C8 as the specification states it is for every token. The encoder writes the escape
  of U+FFFD for a byte that is not UTF-8, so the token whose access token is the byte
  \<^verbatim>\<open>0xFF\<close> is saved, is loaded without error, and comes back with the three bytes of
  U+FFFD as its access token.
\<close>

theorem invalid_utf8_token_is_not_loaded_back:
  "SaveToken (NewClient\<lparr>Token := Some token_ff\<rparr>) blank_world =
     (Inr (), blank_world\<lparr>token_file := Contents (token_ff_file @ [NL])\<rparr>)
   \<and> LoadToken NewClient (blank_world\<lparr>token_file := Contents (token_ff_file @ [NL])\<rparr>) =
       (Inr (), NewClient\<lparr>Token := Some (token_ff\<lparr>AccessToken := [CHR 0xEF, CHR 0xBF, CHR 0xBD]\<rparr>)\<rparr>)
   \<and> token_ff\<lparr>AccessToken := [CHR 0xEF, CHR 0xBF, CHR 0xBD]\<rparr> \<noteq> token_ff"
proof -
  let ?t = "token_ff\<lparr>AccessToken := replacement\<rparr>"
  let ?w = "blank_world\<lparr>token_file := Contents (token_ff_file @ [NL])\<rparr>"
  have s: "SaveToken (NewClient\<lparr>Token := Some token_ff\<rparr>) blank_world = (Inr (), ?w)"
    by (simp add: SaveToken_def blank_world_def quiet_world_def Encode_token_ff)
  have "LoadToken NewClient ?w = (Inr (), NewClient\<lparr>Token := Some ?t\<rparr>)"
    by (rule LoadToken_Encode_OAuthToken [where t = token_ff])
       (simp_all add: token_ff_def unquote_quote_body_ff unquote_quote_body_empty
          Encode_token_ff [unfolded token_ff_def])
  moreover have "?t \<noteq> token_ff"
    by (simp add: token_ff_def replacement_def)
  ultimately show ?thesis using s by (simp add: replacement_def)
qed

end
